theory Spec2Isabelle
  imports Main
begin

section \<open>JavaScript values used by the example\<close>

text \<open>
  A plain JavaScript object with string keys is an association list in insertion order:
  \<open>obj[k]\<close> is \<open>lookup\<close> (\<open>None\<close> is \<open>undefined\<close>), \<open>obj[k] = v\<close> is \<open>put\<close>, which
  keeps the position of a key that is already there and appends a new one, and
  \<open>for (k in obj)\<close> walks \<open>map fst\<close>. A scanned element is such an object, parsed from
  JSON, with distinct property names and strings as the values of the properties read
  here. Two things of JavaScript objects are outside the model: keys that look like
  array indices are enumerated first by \<open>for ... in\<close>, and a key that names a member of
  \<open>Object.prototype\<close> reads as that member.
\<close>

type_synonym 'v obj = "(string \<times> 'v) list"

type_synonym element = "string obj"

definition lookup :: "'v obj \<Rightarrow> string \<Rightarrow> 'v option" where
  "lookup m k = map_of m k"

fun put :: "'v obj \<Rightarrow> string \<Rightarrow> 'v \<Rightarrow> 'v obj" where
  "put [] k v = [(k, v)]"
| "put ((k', v') # m) k v = (if k' = k then (k, v) # m else (k', v') # put m k v)"

text \<open>\<open>if (x)\<close> on a property that is a string or \<open>undefined\<close>: the empty string and
  \<open>undefined\<close> are falsy.\<close>

definition truthy :: "string option \<Rightarrow> bool" where
  "truthy x = (case x of None \<Rightarrow> False | Some s \<Rightarrow> s \<noteq> [])"

text \<open>A value used as a property key is converted to a string: \<open>undefined\<close> becomes
  the key \<open>"undefined"\<close>.\<close>

definition propKey :: "string option \<Rightarrow> string" where
  "propKey x = (case x of None \<Rightarrow> ''undefined'' | Some s \<Rightarrow> s)"

text \<open>\<open>xs[i]\<close> on an array: \<open>undefined\<close> out of range.\<close>

definition index :: "'a list \<Rightarrow> nat \<Rightarrow> 'a option" where
  "index xs i = (if i < length xs then Some (xs ! i) else None)"

text \<open>A JavaScript \<open>Set\<close>: its elements in the order of their first insertion.\<close>

definition add :: "'a list \<Rightarrow> 'a \<Rightarrow> 'a list" where
  "add s x = (if x \<in> set s then s else s @ [x])"

definition newSet :: "'a list \<Rightarrow> 'a list" where
  "newSet xs = foldl add [] xs"

text \<open>\<open>s.startsWith(p)\<close>, and \<open>s.replace(pat, rep)\<close> for a string pattern: the first
  occurrence of \<open>pat\<close> is replaced (the replacement used here has no \<open>$\<close>).\<close>

definition startsWith :: "string \<Rightarrow> string \<Rightarrow> bool" where
  "startsWith s p = (take (length p) s = p)"

fun replace :: "string \<Rightarrow> string \<Rightarrow> string \<Rightarrow> string" where
  "replace [] pat rep = (if pat = [] then rep else [])"
| "replace (c # cs) pat rep =
     (if startsWith (c # cs) pat then rep @ drop (length pat) (c # cs)
      else c # replace cs pat rep)"

section \<open>Errors\<close>

text \<open>
  A thrown exception is a value: \<open>TypeError\<close> is the one JavaScript raises when
  \<open>for ... of\<close> runs over \<open>undefined\<close>; \<open>EncodingError\<close> stands for whatever a function
  of \<open>Encoding\<close> throws. A call that throws ends \<open>main\<close>.
\<close>

datatype error = TypeError | EncodingError

definition bindE :: "error + 'a \<Rightarrow> ('a \<Rightarrow> error + 'b) \<Rightarrow> error + 'b" where
  "bindE r f = (case r of Inl e \<Rightarrow> Inl e | Inr x \<Rightarrow> f x)"

fun mapE :: "('a \<Rightarrow> error + 'b) \<Rightarrow> 'a list \<Rightarrow> error + 'b list" where
  "mapE f [] = Inr []"
| "mapE f (x # xs) = bindE (f x) (\<lambda>y. bindE (mapE f xs) (\<lambda>ys. Inr (y # ys)))"

fun foldE :: "('s \<Rightarrow> 'a \<Rightarrow> error + 's) \<Rightarrow> 's \<Rightarrow> 'a list \<Rightarrow> error + 's" where
  "foldE f s [] = Inr s"
| "foldE f s (x # xs) = bindE (f s x) (\<lambda>s'. foldE f s' xs)"

section \<open>common/utils.js: constants and the key codec\<close>

text \<open>
  \<open>ColumnFamilies\<close>, \<open>QC\<close> and \<open>Encoding\<close> come from \<open>common/utils.js\<close>. The program is
  modelled for any value of the constants and any codec: they are the fields of a
  parameter \<open>u\<close>. A codec function may throw; \<open>toFullKey\<close> and \<open>fromXrefKeyArray\<close> are
  called on properties that may be \<open>undefined\<close>.
\<close>

record ColumnFamilies =
  Standard :: string
  DtProperties :: string
  Refs :: string
  Xrefs :: string

record QC =
  Key :: string
  Rooms :: string
  XRooms :: string
  Level :: string
  Name :: string

record Encoding =
  toFullKey :: "string option \<Rightarrow> error + string"
  fromShortKeyArray :: "string \<Rightarrow> error + string list"
  fromXrefKeyArray :: "string option \<Rightarrow> error + (string list \<times> string list)"

record utils =
  ColumnFamilies :: ColumnFamilies
  QC :: QC
  Encoding :: Encoding

section \<open>common/tandemClient.js\<close>

text \<open>
  Every method used here posts \<open>inputs\<close> to the scan endpoint of a model and returns
  the parsed response. The service is a function from the request to the elements it
  answers with; a method returns the request it sent together with its result.
\<close>

record inputs =
  families :: "string list"
  includeHistory :: bool
  skipArrays :: bool
  keys :: "string option list option"

record request =
  urn :: string
  inputs :: inputs

type_synonym service = "request \<Rightarrow> element list"

definition getElements ::
  "utils \<Rightarrow> service \<Rightarrow> string \<Rightarrow> string option list option \<Rightarrow> string list option
    \<Rightarrow> request \<times> element list" where
  "getElements u fetch urn' keys' columnFamilies =
     (let inputs' = \<lparr>families = (case columnFamilies of
                                     None \<Rightarrow> [Standard (ColumnFamilies u)]
                                   | Some fs \<Rightarrow> fs),
                     includeHistory = False, skipArrays = True, keys = keys'\<rparr>;
          req = \<lparr>urn = urn', inputs = inputs'\<rparr>
      in (req, fetch req))"

definition getTaggedAssets ::
  "utils \<Rightarrow> service \<Rightarrow> string \<Rightarrow> string list option \<Rightarrow> request \<times> element list" where
  "getTaggedAssets u fetch urn' columnFamilies =
     (let inputs' = \<lparr>families = (case columnFamilies of
                                     None \<Rightarrow> [Standard (ColumnFamilies u),
                                              DtProperties (ColumnFamilies u),
                                              Refs (ColumnFamilies u)]
                                   | Some fs \<Rightarrow> fs),
                     includeHistory = False, skipArrays = True, keys = None\<rparr>;
          req = \<lparr>urn = urn', inputs = inputs'\<rparr>
      in (req, filter (\<lambda>item.
                 let userProps = filter (\<lambda>k. startsWith k (DtProperties (ColumnFamilies u) @ '':''))
                                   (map fst item)
                 in length userProps > 0) (fetch req)))"

section \<open>facility/list-facility-structure.js\<close>

record link =
  link_modelId :: string

record facility =
  links :: "link list"

record roomref =
  modelId :: string
  roomId :: "string option"

record data =
  levels :: "element obj"
  rooms :: "element obj"
  assets :: "element obj"
  roomAssetsMap :: "string list obj"
  roomLevelMap :: "string obj"

text \<open>The variables of \<open>main\<close>: \<open>data\<close>, \<open>modelRooms\<close>, and the requests sent so far.\<close>

record state = data +
  modelRooms :: "roomref list"
  requests :: "request list"

definition isDefaultModel :: "string \<Rightarrow> string \<Rightarrow> bool" where
  "isDefaultModel facilityId modelId' =
     (let defaultModelId = replace facilityId ''urn:adsk.dtt:'' ''urn:adsk.dtm:''
      in defaultModelId = modelId')"

text \<open>STEP 4, lines 51 to 75: the room references of one asset.\<close>

definition findRoomRefs :: "utils \<Rightarrow> string \<Rightarrow> element \<Rightarrow> error + roomref list" where
  "findRoomRefs u modelId' asset =
     (let roomRef = lookup asset (Rooms (QC u)) in
      if truthy roomRef then
        bindE (fromShortKeyArray (Encoding u) (the roomRef)) (\<lambda>roomKeys.
          mapE (\<lambda>roomKey. bindE (toFullKey (Encoding u) (Some roomKey)) (\<lambda>fullKey.
                  Inr \<lparr>modelId = modelId', roomId = Some fullKey\<rparr>)) roomKeys)
      else
        bindE (fromXrefKeyArray (Encoding u) (lookup asset (XRooms (QC u)))) (\<lambda>roomKeys.
          let modelIds = fst roomKeys; elementKeys = snd roomKeys in
          Inr (map (\<lambda>i. \<lparr>modelId = ''urn:adsk.dtm:'' @ modelIds ! i,
                         roomId = index elementKeys i\<rparr>) [0 ..< length modelIds])))"

text \<open>STEP 5, lines 77 to 86: the asset is pushed to the bucket of each of its rooms.\<close>

definition linkRoom :: "string \<Rightarrow> string list obj \<Rightarrow> roomref \<Rightarrow> string list obj" where
  "linkRoom assetKey m r =
     (let roomKey = propKey (roomId r);
          assetIds = (case lookup m roomKey of None \<Rightarrow> [] | Some ids \<Rightarrow> ids)
      in put m roomKey (assetIds @ [assetKey]))"

definition linkRooms :: "string \<Rightarrow> roomref list \<Rightarrow> string list obj \<Rightarrow> string list obj" where
  "linkRooms assetKey assetRooms m = foldl (linkRoom assetKey) m assetRooms"

text \<open>Lines 45 to 88: the body of the loop over the assets of one model.\<close>

definition processAsset :: "utils \<Rightarrow> string \<Rightarrow> state \<Rightarrow> element \<Rightarrow> error + state" where
  "processAsset u modelId' st asset =
     bindE (toFullKey (Encoding u) (lookup asset (Key (QC u)))) (\<lambda>assetKey.
       let st1 = st\<lparr>assets := put (assets st) assetKey asset\<rparr> in
       bindE (findRoomRefs u modelId' asset) (\<lambda>assetRooms.
         Inr (st1\<lparr>roomAssetsMap := linkRooms assetKey assetRooms (roomAssetsMap st1),
                  modelRooms := modelRooms st1 @ assetRooms\<rparr>)))"

text \<open>STEP 3, lines 36 to 89: the body of the loop over the links, and the loop.\<close>

definition processLink :: "utils \<Rightarrow> service \<Rightarrow> string \<Rightarrow> state \<Rightarrow> link \<Rightarrow> error + state" where
  "processLink u fetch FACILITY_URN st l =
     (if isDefaultModel FACILITY_URN (link_modelId l) then Inr st
      else
        let (req, assets') =
              getTaggedAssets u fetch (link_modelId l)
                (Some [Standard (ColumnFamilies u), DtProperties (ColumnFamilies u),
                       Refs (ColumnFamilies u), Xrefs (ColumnFamilies u)]);
            modelId' = link_modelId l
        in foldE (processAsset u modelId') (st\<lparr>requests := requests st @ [req]\<rparr>) assets')"

definition collectAssets :: "utils \<Rightarrow> service \<Rightarrow> string \<Rightarrow> facility \<Rightarrow> state \<Rightarrow> error + state" where
  "collectAssets u fetch FACILITY_URN fac st = foldE (processLink u fetch FACILITY_URN) st (links fac)"

text \<open>Lines 99 to 109: the body of the loop over the rooms a model returned; \<open>levelIds\<close>
  is the set local to the model.\<close>

definition processRoom :: "utils \<Rightarrow> state \<times> string list \<Rightarrow> element \<Rightarrow> error + state \<times> string list" where
  "processRoom u sl room =
     (let st = fst sl; levelIds = snd sl in
      bindE (toFullKey (Encoding u) (lookup room (Key (QC u)))) (\<lambda>roomKey.
        let st1 = st\<lparr>rooms := put (rooms st) roomKey room\<rparr>;
            levelRef = lookup room (Level (QC u))
        in if truthy levelRef then
             bindE (toFullKey (Encoding u) levelRef) (\<lambda>levelKey.
               Inr (st1\<lparr>roomLevelMap := put (roomLevelMap st1) roomKey levelKey\<rparr>,
                    add levelIds (the levelRef)))
           else Inr (st1, levelIds)))"

text \<open>Lines 114 to 118: the body of the loop over the levels a model returned.\<close>

definition processLevel :: "utils \<Rightarrow> state \<Rightarrow> element \<Rightarrow> error + state" where
  "processLevel u st level =
     bindE (toFullKey (Encoding u) (lookup level (Key (QC u)))) (\<lambda>levelKey.
       Inr (st\<lparr>levels := put (levels st) levelKey level\<rparr>))"

text \<open>STEP 6, lines 93 to 120: the body of the loop over the models of the room
  references.\<close>

definition processModel :: "utils \<Rightarrow> service \<Rightarrow> state \<Rightarrow> string \<Rightarrow> error + state" where
  "processModel u fetch st modelId' =
     (let roomIds = newSet (map roomId (filter (\<lambda>i. modelId i = modelId') (modelRooms st)));
          (req, rooms') = getElements u fetch modelId' (Some roomIds)
                            (Some [Standard (ColumnFamilies u), Refs (ColumnFamilies u)])
      in bindE (foldE (processRoom u) (st\<lparr>requests := requests st @ [req]\<rparr>, []) rooms')
           (\<lambda>sl. let st1 = fst sl; levelIds = snd sl in
              if length levelIds > 0 then
                let (req', levels') = getElements u fetch modelId' (Some (map Some levelIds)) None
                in foldE (processLevel u) (st1\<lparr>requests := requests st1 @ [req']\<rparr>) levels'
              else Inr st1))"

text \<open>\<open>main\<close> up to STEP 6: the token and the facility are inputs, the result is the
  state STEP 7 starts from. STEP 7 is \<open>listStructure\<close> below, and the whole of the
  source's \<open>main\<close> is \<open>mainWithOutput\<close>.\<close>

definition initial :: state where
  "initial = \<lparr>levels = [], rooms = [], assets = [], roomAssetsMap = [], roomLevelMap = [],
              modelRooms = [], requests = []\<rparr>"

definition main :: "utils \<Rightarrow> service \<Rightarrow> string \<Rightarrow> facility \<Rightarrow> error + state" where
  "main u fetch FACILITY_URN fac =
     bindE (collectAssets u fetch FACILITY_URN fac initial) (\<lambda>st.
       let modelIds = newSet (map modelId (modelRooms st))
       in foldE (processModel u fetch) st modelIds)"

text \<open>The generators, each as the list of what it yields; a generator that throws
  while it is consumed is the error.\<close>

definition getLevels :: "'a data_scheme \<Rightarrow> (string \<times> element option) list" where
  "getLevels d = map (\<lambda>levelKey. (levelKey, lookup (levels d) levelKey)) (map fst (levels d))"

definition getRoomsByLevel :: "'a data_scheme \<Rightarrow> string \<Rightarrow> (string \<times> element option) list" where
  "getRoomsByLevel d levelKey =
     map (\<lambda>roomKey. (roomKey, lookup (rooms d) roomKey))
       (filter (\<lambda>roomKey. \<not> (lookup (roomLevelMap d) roomKey \<noteq> Some levelKey))
          (map fst (rooms d)))"

definition getAssetsByRoom :: "'a data_scheme \<Rightarrow> string \<Rightarrow> error + (string \<times> element option) list" where
  "getAssetsByRoom d roomKey =
     (case lookup (roomAssetsMap d) roomKey of
        None \<Rightarrow> Inl TypeError
      | Some assetKeys \<Rightarrow> Inr (map (\<lambda>assetKey. (assetKey, lookup (assets d) assetKey)) assetKeys))"

text \<open>A value in a template literal: \<open>undefined\<close> prints as \<open>undefined\<close>.\<close>

definition str :: "string option \<Rightarrow> string" where
  "str x = (case x of None \<Rightarrow> ''undefined'' | Some s \<Rightarrow> s)"

text \<open>STEP 7, lines 122 to 131: the three nested loops over the generators, with the
  lines they print. Reading \<open>QC.Name\<close> of \<open>undefined\<close> throws a \<open>TypeError\<close>, as does
  \<open>getAssetsByRoom\<close> for a room without a bucket.\<close>

definition printAsset :: "utils \<Rightarrow> string \<times> element option \<Rightarrow> error + string" where
  "printAsset u p =
     (case snd p of
        None \<Rightarrow> Inl TypeError
      | Some asset \<Rightarrow> Inr (''    '' @ str (lookup asset (Name (QC u)))))"

definition printRoom :: "utils \<Rightarrow> 'a data_scheme \<Rightarrow> string \<times> element option \<Rightarrow> error + string list" where
  "printRoom u d p =
     (case snd p of
        None \<Rightarrow> Inl TypeError
      | Some room \<Rightarrow>
          bindE (getAssetsByRoom d (fst p)) (\<lambda>found.
            bindE (mapE (printAsset u) found) (\<lambda>ls.
              Inr ((''  '' @ str (lookup room (Name (QC u)))) # ls))))"

definition printLevel :: "utils \<Rightarrow> 'a data_scheme \<Rightarrow> string \<times> element option \<Rightarrow> error + string list" where
  "printLevel u d p =
     (case snd p of
        None \<Rightarrow> Inl TypeError
      | Some level \<Rightarrow>
          bindE (mapE (printRoom u d) (getRoomsByLevel d (fst p))) (\<lambda>ls.
            Inr (str (lookup level (Name (QC u))) # concat ls)))"

definition listStructure :: "utils \<Rightarrow> 'a data_scheme \<Rightarrow> error + string list" where
  "listStructure u d =
     bindE (mapE (printLevel u d) (getLevels d)) (\<lambda>ls.
       Inr (''facility data list'' # concat ls))"

text \<open>The whole of \<open>main\<close>: the state after STEP 6 and the lines STEP 7 printed, or the
  error that rejects the promise.\<close>

definition mainWithOutput ::
  "utils \<Rightarrow> service \<Rightarrow> string \<Rightarrow> facility \<Rightarrow> error + state \<times> string list" where
  "mainWithOutput u fetch FACILITY_URN fac =
     bindE (main u fetch FACILITY_URN fac) (\<lambda>st.
       bindE (listStructure u st) (\<lambda>out. Inr (st, out)))"

section \<open>What a run computes, in closed form\<close>

text \<open>
  The definitions of this section are not code. They name the lists a run of \<open>main\<close>
  goes through, so that the final state can be written as an expression of the inputs
  (\<open>main_Inr\<close> below) and the properties of the program read off it.
\<close>

definition putAll :: "'v obj \<Rightarrow> (string \<times> 'v) list \<Rightarrow> 'v obj" where
  "putAll m kvs = foldl (\<lambda>m kv. put m (fst kv) (snd kv)) m kvs"

text \<open>\<open>push m (roomKey, assetKey)\<close> is one turn of the loop of STEP 5.\<close>

definition push :: "string list obj \<Rightarrow> string \<times> string \<Rightarrow> string list obj" where
  "push m p = put m (fst p) ((case lookup m (fst p) of None \<Rightarrow> [] | Some ids \<Rightarrow> ids) @ [snd p])"

definition pushAll :: "string list obj \<Rightarrow> (string \<times> string) list \<Rightarrow> string list obj" where
  "pushAll m ps = foldl push m ps"

text \<open>The column families \<open>main\<close> asks for, the request of a model's asset scan and its
  answer, and the models that are scanned: the links but the default model.\<close>

definition assetFamilies :: "utils \<Rightarrow> string list" where
  "assetFamilies u = [Standard (ColumnFamilies u), DtProperties (ColumnFamilies u),
                      Refs (ColumnFamilies u), Xrefs (ColumnFamilies u)]"

definition roomFamilies :: "utils \<Rightarrow> string list" where
  "roomFamilies u = [Standard (ColumnFamilies u), Refs (ColumnFamilies u)]"

definition taggedRequest :: "utils \<Rightarrow> service \<Rightarrow> string \<Rightarrow> request" where
  "taggedRequest u fetch m = fst (getTaggedAssets u fetch m (Some (assetFamilies u)))"

definition taggedAssets :: "utils \<Rightarrow> service \<Rightarrow> string \<Rightarrow> element list" where
  "taggedAssets u fetch m = snd (getTaggedAssets u fetch m (Some (assetFamilies u)))"

definition scannedModels :: "string \<Rightarrow> facility \<Rightarrow> string list" where
  "scannedModels fid fac = filter (\<lambda>m. \<not> isDefaultModel fid m) (map link_modelId (links fac))"

definition scanned :: "utils \<Rightarrow> service \<Rightarrow> string list \<Rightarrow> (string \<times> element) list" where
  "scanned u fetch ms = concat (map (\<lambda>m. map (Pair m) (taggedAssets u fetch m)) ms)"

text \<open>An element under its full key; the room references of an asset; the pairs
  (room key, asset key) STEP 5 goes through for it. A codec call that throws ends the
  run, so these lists are empty for it.\<close>

definition keyed :: "utils \<Rightarrow> element \<Rightarrow> (string \<times> element) list" where
  "keyed u e = (case toFullKey (Encoding u) (lookup e (Key (QC u))) of
                  Inl _ \<Rightarrow> [] | Inr k \<Rightarrow> [(k, e)])"

definition assetRefs :: "utils \<Rightarrow> string \<Rightarrow> element \<Rightarrow> roomref list" where
  "assetRefs u m a = (case findRoomRefs u m a of Inl _ \<Rightarrow> [] | Inr rs \<Rightarrow> rs)"

definition assetLinks :: "utils \<Rightarrow> string \<Rightarrow> element \<Rightarrow> (string \<times> string) list" where
  "assetLinks u m a =
     concat (map (\<lambda>ka. map (\<lambda>r. (propKey (roomId r), fst ka)) (assetRefs u m a)) (keyed u a))"

definition afterAssets :: "utils \<Rightarrow> string \<Rightarrow> element list \<Rightarrow> state \<Rightarrow> state" where
  "afterAssets u m as st =
     st\<lparr>assets := putAll (assets st) (concat (map (keyed u) as)),
        roomAssetsMap := pushAll (roomAssetsMap st) (concat (map (assetLinks u m) as)),
        modelRooms := modelRooms st @ concat (map (assetRefs u m) as)\<rparr>"

definition afterScan :: "utils \<Rightarrow> service \<Rightarrow> string list \<Rightarrow> state \<Rightarrow> state" where
  "afterScan u fetch ms st =
     st\<lparr>assets := putAll (assets st) (concat (map (\<lambda>p. keyed u (snd p)) (scanned u fetch ms))),
        roomAssetsMap := pushAll (roomAssetsMap st)
                           (concat (map (\<lambda>p. assetLinks u (fst p) (snd p)) (scanned u fetch ms))),
        modelRooms := modelRooms st
                        @ concat (map (\<lambda>p. assetRefs u (fst p) (snd p)) (scanned u fetch ms)),
        requests := requests st @ map (taggedRequest u fetch) ms\<rparr>"

text \<open>The pending rooms after STEP 3 (\<open>modelRooms\<close>), their models, and the pairs
  (room key, asset key) in the order STEP 5 met them.\<close>

definition pending :: "utils \<Rightarrow> service \<Rightarrow> string \<Rightarrow> facility \<Rightarrow> roomref list" where
  "pending u fetch fid fac =
     concat (map (\<lambda>p. assetRefs u (fst p) (snd p)) (scanned u fetch (scannedModels fid fac)))"

definition pendingModels :: "utils \<Rightarrow> service \<Rightarrow> string \<Rightarrow> facility \<Rightarrow> string list" where
  "pendingModels u fetch fid fac = newSet (map modelId (pending u fetch fid fac))"

definition discovered :: "utils \<Rightarrow> service \<Rightarrow> string \<Rightarrow> facility \<Rightarrow> (string \<times> string) list" where
  "discovered u fetch fid fac =
     concat (map (\<lambda>p. assetLinks u (fst p) (snd p)) (scanned u fetch (scannedModels fid fac)))"

text \<open>STEP 6 for one model: the level reference of a room, the entry of \<open>roomLevelMap\<close>
  it makes, the keys and the request of the room fetch and its answer, the level ids
  collected from the answer, and the level fetch (none when there is no level id).\<close>

definition levelRef :: "utils \<Rightarrow> element \<Rightarrow> string list" where
  "levelRef u room = (if truthy (lookup room (Level (QC u)))
                      then [the (lookup room (Level (QC u)))] else [])"

definition roomLevel :: "utils \<Rightarrow> element \<Rightarrow> (string \<times> string) list" where
  "roomLevel u room =
     (if truthy (lookup room (Level (QC u))) then
        concat (map (\<lambda>kr. case toFullKey (Encoding u) (lookup room (Level (QC u))) of
                             Inl _ \<Rightarrow> [] | Inr levelKey \<Rightarrow> [(fst kr, levelKey)]) (keyed u room))
      else [])"

definition roomIdsOf :: "roomref list \<Rightarrow> string \<Rightarrow> string option list" where
  "roomIdsOf mrs m = newSet (map roomId (filter (\<lambda>i. modelId i = m) mrs))"

definition roomRequest :: "utils \<Rightarrow> service \<Rightarrow> roomref list \<Rightarrow> string \<Rightarrow> request" where
  "roomRequest u fetch mrs m =
     fst (getElements u fetch m (Some (roomIdsOf mrs m)) (Some (roomFamilies u)))"

definition fetchedRooms :: "utils \<Rightarrow> service \<Rightarrow> roomref list \<Rightarrow> string \<Rightarrow> element list" where
  "fetchedRooms u fetch mrs m =
     snd (getElements u fetch m (Some (roomIdsOf mrs m)) (Some (roomFamilies u)))"

definition levelIdsOf :: "utils \<Rightarrow> service \<Rightarrow> roomref list \<Rightarrow> string \<Rightarrow> string list" where
  "levelIdsOf u fetch mrs m = newSet (concat (map (levelRef u) (fetchedRooms u fetch mrs m)))"

definition levelRequests :: "utils \<Rightarrow> service \<Rightarrow> roomref list \<Rightarrow> string \<Rightarrow> request list" where
  "levelRequests u fetch mrs m =
     (if length (levelIdsOf u fetch mrs m) > 0
      then [fst (getElements u fetch m (Some (map Some (levelIdsOf u fetch mrs m))) None)]
      else [])"

definition fetchedLevels :: "utils \<Rightarrow> service \<Rightarrow> roomref list \<Rightarrow> string \<Rightarrow> element list" where
  "fetchedLevels u fetch mrs m =
     (if length (levelIdsOf u fetch mrs m) > 0
      then snd (getElements u fetch m (Some (map Some (levelIdsOf u fetch mrs m))) None)
      else [])"

definition afterModels :: "utils \<Rightarrow> service \<Rightarrow> string list \<Rightarrow> state \<Rightarrow> state" where
  "afterModels u fetch ms st =
     st\<lparr>levels := putAll (levels st)
                    (concat (map (keyed u) (concat (map (fetchedLevels u fetch (modelRooms st)) ms)))),
        rooms := putAll (rooms st)
                   (concat (map (keyed u) (concat (map (fetchedRooms u fetch (modelRooms st)) ms)))),
        roomLevelMap := putAll (roomLevelMap st)
                   (concat (map (roomLevel u) (concat (map (fetchedRooms u fetch (modelRooms st)) ms)))),
        requests := requests st
                   @ concat (map (\<lambda>m. roomRequest u fetch (modelRooms st) m
                                       # levelRequests u fetch (modelRooms st) m) ms)\<rparr>"

section \<open>A worked facility\<close>

text \<open>
  A facility \<open>D\<close> with the models \<open>D\<close> (its default model), \<open>A\<close> and \<open>B\<close>, a toy codec
  and a service that answers from fixed tables. In the codec a short key is one
  character, its full key is the character after \<open>F\<close>, and a cross-model blob lists the
  model ids, a bar, and the element keys. The theorems below are run on it.
\<close>

definition demoEncoding :: Encoding where
  "demoEncoding =
     \<lparr>toFullKey = (\<lambda>k. case k of None \<Rightarrow> Inl EncodingError | Some s \<Rightarrow> Inr (CHR ''F'' # s)),
      fromShortKeyArray = (\<lambda>s. Inr (map (\<lambda>c. [c]) s)),
      fromXrefKeyArray = (\<lambda>x. case x of
          None \<Rightarrow> Inr ([], [])
        | Some s \<Rightarrow> Inr (map (\<lambda>c. [c]) (takeWhile (\<lambda>c. c \<noteq> CHR ''|'') s),
                        map (\<lambda>c. [CHR ''F'', c]) (drop 1 (dropWhile (\<lambda>c. c \<noteq> CHR ''|'') s))))\<rparr>"

definition demoUtils :: utils where
  "demoUtils =
     \<lparr>ColumnFamilies = \<lparr>Standard = ''n'', DtProperties = ''z'', Refs = ''l'', Xrefs = ''x''\<rparr>,
      QC = \<lparr>Key = ''k'', Rooms = ''l:r'', XRooms = ''x:r'', Level = ''l:l'', Name = ''n:n''\<rparr>,
      Encoding = demoEncoding\<rparr>"

definition pump :: element where
  "pump = [(''k'', ''p''), (''z:tag'', ''P-1''), (''l:r'', ''RS'')]"
definition fan :: element where
  "fan = [(''k'', ''q''), (''z:tag'', ''F-1''), (''x:r'', ''B|T'')]"
definition spare :: element where
  "spare = [(''k'', ''s''), (''z:tag'', ''S-1'')]"
definition wall :: element where
  "wall = [(''k'', ''w''), (''n:n'', ''Wall'')]"
definition valve :: element where
  "valve = [(''k'', ''v''), (''z:tag'', ''V-1''), (''l:r'', ''R'')]"
definition sensor :: element where
  "sensor = [(''k'', ''d''), (''z:tag'', ''D-1''), (''l:r'', ''R'')]"
definition roomR :: element where
  "roomR = [(''k'', ''R''), (''l:l'', ''L'')]"
definition roomT :: element where
  "roomT = [(''k'', ''T''), (''x:l'', ''C|N''), (''x:r'', ''C|N'')]"
definition levelL :: element where
  "levelL = [(''k'', ''L''), (''n:n'', ''Level 1'')]"

definition demoFetch :: service where
  "demoFetch req =
     (if keys (inputs req) = None then
        (if urn req = ''urn:adsk.dtm:A'' then [pump, fan, spare, wall]
         else if urn req = ''urn:adsk.dtm:B'' then [valve]
         else if urn req = ''urn:adsk.dtm:D'' then [sensor]
         else [])
      else if urn req = ''urn:adsk.dtm:A'' \<and> families (inputs req) = [''n'', ''l''] then [roomR]
      else if urn req = ''urn:adsk.dtm:A'' then [levelL]
      else if urn req = ''urn:adsk.dtm:B'' \<and> families (inputs req) = [''n'', ''l''] then [roomT]
      else [])"

definition demoId :: string where
  "demoId = ''urn:adsk.dtt:D''"

definition demoFacility :: facility where
  "demoFacility = \<lparr>links = [\<lparr>link_modelId = ''urn:adsk.dtm:D''\<rparr>,
                             \<lparr>link_modelId = ''urn:adsk.dtm:A''\<rparr>,
                             \<lparr>link_modelId = ''urn:adsk.dtm:B''\<rparr>]\<rparr>"

definition demoState :: state where
  "demoState =
     \<lparr>levels = [(''FL'', levelL)],
      rooms = [(''FR'', roomR), (''FT'', roomT)],
      assets = [(''Fp'', pump), (''Fq'', fan), (''Fs'', spare), (''Fv'', valve)],
      roomAssetsMap = [(''FR'', [''Fp'', ''Fv'']), (''FS'', [''Fp'']), (''FT'', [''Fq''])],
      roomLevelMap = [(''FR'', ''FL'')],
      modelRooms = [\<lparr>modelId = ''urn:adsk.dtm:A'', roomId = Some ''FR''\<rparr>,
                    \<lparr>modelId = ''urn:adsk.dtm:A'', roomId = Some ''FS''\<rparr>,
                    \<lparr>modelId = ''urn:adsk.dtm:B'', roomId = Some ''FT''\<rparr>,
                    \<lparr>modelId = ''urn:adsk.dtm:B'', roomId = Some ''FR''\<rparr>],
      requests = [\<lparr>urn = ''urn:adsk.dtm:A'', inputs = \<lparr>families = [''n'', ''z'', ''l'', ''x''], includeHistory = False, skipArrays = True, keys = None\<rparr>\<rparr>,
                  \<lparr>urn = ''urn:adsk.dtm:B'', inputs = \<lparr>families = [''n'', ''z'', ''l'', ''x''], includeHistory = False, skipArrays = True, keys = None\<rparr>\<rparr>,
                  \<lparr>urn = ''urn:adsk.dtm:A'', inputs = \<lparr>families = [''n'', ''l''], includeHistory = False, skipArrays = True, keys = Some [Some ''FR'', Some ''FS'']\<rparr>\<rparr>,
                  \<lparr>urn = ''urn:adsk.dtm:A'', inputs = \<lparr>families = [''n''], includeHistory = False, skipArrays = True, keys = Some [Some ''L'']\<rparr>\<rparr>,
                  \<lparr>urn = ''urn:adsk.dtm:B'', inputs = \<lparr>families = [''n'', ''l''], includeHistory = False, skipArrays = True, keys = Some [Some ''FT'', Some ''FR'']\<rparr>\<rparr>]\<rparr>"

definition duct :: element where
  "duct = [(''k'', ''c''), (''z:tag'', ''C-1''), (''x:r'', ''BC|KK'')]"

definition meter :: element where
  "meter = [(''k'', ''m''), (''z:tag'', ''M-1''), (''x:r'', ''BC|K'')]"

text \<open>A second service: it answers as the first one, but the room fetch of model \<open>A\<close> also
  returns a room \<open>X\<close> that no asset refers to, on the level \<open>L\<close>.\<close>

definition roomX :: element where
  "roomX = [(''k'', ''X''), (''l:l'', ''L'')]"

definition strayFetch :: service where
  "strayFetch req =
     (if urn req = ''urn:adsk.dtm:A'' \<and> keys (inputs req) \<noteq> None
         \<and> families (inputs req) = [''n'', ''l'']
      then [roomR, roomX]
      else demoFetch req)"

section \<open>The final state of a run\<close>

lemma lookup_put: "lookup (put m k v) k' = (if k' = k then Some v else lookup m k')"
  by (induction m) (auto simp: lookup_def)

lemma bindE_Inl [simp]: "bindE (Inl e) f = Inl e"
  by (simp add: bindE_def)

lemma bindE_Inr [simp]: "bindE (Inr x) f = f x"
  by (simp add: bindE_def)

lemma bindE_eq_Inr: "bindE r f = Inr y \<longleftrightarrow> (\<exists>x. r = Inr x \<and> f x = Inr y)"
  by (cases r) auto

lemma foldE_append: "foldE f s (xs @ ys) = bindE (foldE f s xs) (\<lambda>s'. foldE f s' ys)"
  by (induction xs arbitrary: s) (auto simp: bindE_def split: sum.splits)

lemma putAll_append: "putAll m (xs @ ys) = putAll (putAll m xs) ys"
  by (simp add: putAll_def)

lemma pushAll_append: "pushAll m (xs @ ys) = pushAll (pushAll m xs) ys"
  by (simp add: pushAll_def)

lemma putAll_Nil [simp]: "putAll m [] = m"
  by (simp add: putAll_def)

lemma pushAll_Nil [simp]: "pushAll m [] = m"
  by (simp add: pushAll_def)

lemma linkRooms_pushAll:
  "linkRooms k rs m = pushAll m (map (\<lambda>r. (propKey (roomId r), k)) rs)"
  by (induction rs arbitrary: m) (simp_all add: linkRooms_def pushAll_def linkRoom_def push_def Let_def)

lemma processAsset_Inr:
  assumes "processAsset u m st a = Inr st'"
  shows "st' = st\<lparr>assets := putAll (assets st) (keyed u a),
                   roomAssetsMap := pushAll (roomAssetsMap st) (assetLinks u m a),
                   modelRooms := modelRooms st @ assetRefs u m a\<rparr>"
  using assms
  by (auto simp: processAsset_def bindE_eq_Inr Let_def keyed_def assetRefs_def assetLinks_def
        linkRooms_pushAll putAll_def)

lemma foldE_processAsset:
  "foldE (processAsset u m) st as = Inr st' \<Longrightarrow> st' = afterAssets u m as st"
proof (induction as arbitrary: st)
  case Nil
  then show ?case by (simp add: afterAssets_def)
next
  case (Cons a as)
  from Cons.prems obtain st1 where 1: "processAsset u m st a = Inr st1"
    and 2: "foldE (processAsset u m) st1 as = Inr st'"
    by (auto simp: bindE_eq_Inr)
  from Cons.IH [OF 2] processAsset_Inr [OF 1] show ?case
    by (simp add: afterAssets_def putAll_append pushAll_append)
qed

lemma processLink_Inr:
  assumes "processLink u fetch fid st l = Inr st'"
  shows "st' = (if isDefaultModel fid (link_modelId l) then st
                else afterAssets u (link_modelId l) (taggedAssets u fetch (link_modelId l))
                       (st\<lparr>requests := requests st @ [taggedRequest u fetch (link_modelId l)]\<rparr>))"
proof (cases "isDefaultModel fid (link_modelId l)")
  case True
  with assms show ?thesis by (simp add: processLink_def)
next
  case False
  with assms have "foldE (processAsset u (link_modelId l))
      (st\<lparr>requests := requests st @ [taggedRequest u fetch (link_modelId l)]\<rparr>)
      (taggedAssets u fetch (link_modelId l)) = Inr st'"
    by (simp add: processLink_def taggedRequest_def taggedAssets_def assetFamilies_def
          split_beta Let_def)
  from foldE_processAsset [OF this] False show ?thesis by simp
qed

lemma scanned_Cons:
  "scanned u fetch (m # ms) = map (Pair m) (taggedAssets u fetch m) @ scanned u fetch ms"
  by (simp add: scanned_def)

lemma afterScan_Cons:
  "afterScan u fetch (m # ms) st =
     afterScan u fetch ms (afterAssets u m (taggedAssets u fetch m)
       (st\<lparr>requests := requests st @ [taggedRequest u fetch m]\<rparr>))"
  by (simp add: afterScan_def afterAssets_def scanned_Cons putAll_append pushAll_append
        map_concat o_def)

lemma foldE_processLink:
  "foldE (processLink u fetch fid) st ls = Inr st'
    \<Longrightarrow> st' = afterScan u fetch (filter (\<lambda>m. \<not> isDefaultModel fid m) (map link_modelId ls)) st"
proof (induction ls arbitrary: st)
  case Nil
  then show ?case by (simp add: afterScan_def scanned_def)
next
  case (Cons l ls)
  from Cons.prems obtain st1 where 1: "processLink u fetch fid st l = Inr st1"
    and 2: "foldE (processLink u fetch fid) st1 ls = Inr st'"
    by (auto simp: bindE_eq_Inr)
  from Cons.IH [OF 2] processLink_Inr [OF 1] show ?case
    by (simp add: afterScan_Cons)
qed

lemma collectAssets_Inr:
  "collectAssets u fetch fid fac st = Inr st'
    \<Longrightarrow> st' = afterScan u fetch (scannedModels fid fac) st"
  by (simp add: collectAssets_def scannedModels_def foldE_processLink)

lemma processRoom_Inr:
  assumes "processRoom u (st, ids) room = Inr (st', ids')"
  shows "st' = st\<lparr>rooms := putAll (rooms st) (keyed u room),
                   roomLevelMap := putAll (roomLevelMap st) (roomLevel u room)\<rparr>
         \<and> ids' = foldl add ids (levelRef u room)"
  using assms
  by (auto simp: processRoom_def bindE_eq_Inr Let_def keyed_def roomLevel_def levelRef_def
        putAll_def split: if_splits)

lemma foldE_processRoom:
  "foldE (processRoom u) (st, ids) rs = Inr (st', ids')
    \<Longrightarrow> st' = st\<lparr>rooms := putAll (rooms st) (concat (map (keyed u) rs)),
                   roomLevelMap := putAll (roomLevelMap st) (concat (map (roomLevel u) rs))\<rparr>
        \<and> ids' = foldl add ids (concat (map (levelRef u) rs))"
proof (induction rs arbitrary: st ids)
  case Nil
  then show ?case by simp
next
  case (Cons r rs)
  from Cons.prems obtain st1 ids1 where 1: "processRoom u (st, ids) r = Inr (st1, ids1)"
    and 2: "foldE (processRoom u) (st1, ids1) rs = Inr (st', ids')"
    by (auto simp: bindE_eq_Inr)
  from Cons.IH [OF 2] processRoom_Inr [OF 1] show ?case
    by (simp add: putAll_append)
qed

lemma processLevel_Inr:
  "processLevel u st level = Inr st' \<Longrightarrow> st' = st\<lparr>levels := putAll (levels st) (keyed u level)\<rparr>"
  by (auto simp: processLevel_def bindE_eq_Inr keyed_def putAll_def)

lemma foldE_processLevel:
  "foldE (processLevel u) st ls = Inr st'
    \<Longrightarrow> st' = st\<lparr>levels := putAll (levels st) (concat (map (keyed u) ls))\<rparr>"
proof (induction ls arbitrary: st)
  case Nil
  then show ?case by simp
next
  case (Cons l ls)
  from Cons.prems obtain st1 where 1: "processLevel u st l = Inr st1"
    and 2: "foldE (processLevel u) st1 ls = Inr st'"
    by (auto simp: bindE_eq_Inr)
  from Cons.IH [OF 2] processLevel_Inr [OF 1] show ?case
    by (simp add: putAll_append)
qed

lemma processModel_Inr:
  assumes "processModel u fetch st m = Inr st'"
  shows "st' = afterModels u fetch [m] st"
proof -
  let ?st0 = "st\<lparr>requests := requests st @ [roomRequest u fetch (modelRooms st) m]\<rparr>"
  let ?k = "\<lambda>sl. let st1 = fst sl; levelIds = snd sl in
              if length levelIds > 0 then
                let (req', levels') = getElements u fetch m (Some (map Some levelIds)) None
                in foldE (processLevel u) (st1\<lparr>requests := requests st1 @ [req']\<rparr>) levels'
              else Inr st1"
  from assms have "bindE (foldE (processRoom u) (?st0, []) (fetchedRooms u fetch (modelRooms st) m)) ?k
      = Inr st'"
    by (simp add: processModel_def Let_def split_beta roomRequest_def
          fetchedRooms_def roomIdsOf_def roomFamilies_def)
  then obtain sl where sl: "foldE (processRoom u) (?st0, []) (fetchedRooms u fetch (modelRooms st) m) = Inr sl"
    and k: "?k sl = Inr st'"
    unfolding bindE_eq_Inr by blast
  obtain st1 ids where [simp]: "sl = (st1, ids)" by (cases sl)
  from sl have 1:
    "foldE (processRoom u) (?st0, []) (fetchedRooms u fetch (modelRooms st) m) = Inr (st1, ids)"
    by simp
  from k have 2: "(if length ids > 0
             then foldE (processLevel u)
                    (st1\<lparr>requests := requests st1 @ [fst (getElements u fetch m (Some (map Some ids)) None)]\<rparr>)
                    (snd (getElements u fetch m (Some (map Some ids)) None))
             else Inr st1) = Inr st'"
    by (simp add: Let_def split_beta cong: if_cong)
  from foldE_processRoom [OF 1]
  have st1: "st1 = ?st0\<lparr>rooms := putAll (rooms ?st0) (concat (map (keyed u) (fetchedRooms u fetch (modelRooms st) m))),
                   roomLevelMap := putAll (roomLevelMap ?st0) (concat (map (roomLevel u) (fetchedRooms u fetch (modelRooms st) m)))\<rparr>"
    and ids: "ids = levelIdsOf u fetch (modelRooms st) m"
    by (simp_all add: levelIdsOf_def newSet_def)
  show ?thesis
  proof (cases "length ids > 0")
    case True
    with 2 have "foldE (processLevel u)
                    (st1\<lparr>requests := requests st1 @ [fst (getElements u fetch m (Some (map Some ids)) None)]\<rparr>)
                    (snd (getElements u fetch m (Some (map Some ids)) None)) = Inr st'"
      by simp
    from foldE_processLevel [OF this] have st': "st' =
        st1\<lparr>requests := requests st1 @ [fst (getElements u fetch m (Some (map Some ids)) None)],
            levels := putAll (levels st1)
              (concat (map (keyed u) (snd (getElements u fetch m (Some (map Some ids)) None))))\<rparr>"
      by simp
    from True ids have pos: "levelIdsOf u fetch (modelRooms st) m \<noteq> []" by simp
    show ?thesis
      unfolding st' st1 ids
      by (simp add: afterModels_def levelRequests_def fetchedLevels_def pos)
  next
    case False
    with 2 have st': "st' = st1" by simp
    from False ids have zero: "levelIdsOf u fetch (modelRooms st) m = []" by simp
    show ?thesis
      unfolding st' st1
      by (simp add: afterModels_def levelRequests_def fetchedLevels_def zero)
  qed
qed

lemma afterModels_Cons:
  "afterModels u fetch (m # ms) st = afterModels u fetch ms (afterModels u fetch [m] st)"
  by (simp add: afterModels_def putAll_append)

lemma foldE_processModel:
  "foldE (processModel u fetch) st ms = Inr st' \<Longrightarrow> st' = afterModels u fetch ms st"
proof (induction ms arbitrary: st)
  case Nil
  then show ?case by (simp add: afterModels_def)
next
  case (Cons m ms)
  from Cons.prems obtain st1 where 1: "processModel u fetch st m = Inr st1"
    and 2: "foldE (processModel u fetch) st1 ms = Inr st'"
    by (auto simp: bindE_eq_Inr)
  show ?case
    unfolding Cons.IH [OF 2] processModel_Inr [OF 1]
    by (rule afterModels_Cons [symmetric])
qed

lemma main_Inr:
  assumes "main u fetch fid fac = Inr st"
  shows "st = afterModels u fetch (pendingModels u fetch fid fac)
                (afterScan u fetch (scannedModels fid fac) initial)"
proof -
  from assms obtain st1 where 1: "collectAssets u fetch fid fac initial = Inr st1"
    and 2: "foldE (processModel u fetch) st1 (newSet (map modelId (modelRooms st1))) = Inr st"
    by (auto simp: main_def bindE_eq_Inr Let_def)
  from collectAssets_Inr [OF 1] have st1: "st1 = afterScan u fetch (scannedModels fid fac) initial" .
  then have "modelRooms st1 = pending u fetch fid fac"
    by (simp add: afterScan_def pending_def initial_def)
  with foldE_processModel [OF 2] st1 show ?thesis
    by (simp add: pendingModels_def)
qed

section \<open>Buckets and single steps\<close>

lemma lookup_push:
  "lookup (push m p) k =
     (if k = fst p then Some ((case lookup m k of None \<Rightarrow> [] | Some ids \<Rightarrow> ids) @ [snd p])
      else lookup m k)"
  by (simp add: push_def lookup_put)

lemma lookup_pushAll:
  "lookup (pushAll m ps) k =
     (if filter (\<lambda>p. fst p = k) ps = [] then lookup m k
      else Some ((case lookup m k of None \<Rightarrow> [] | Some ids \<Rightarrow> ids)
                   @ map snd (filter (\<lambda>p. fst p = k) ps)))"
proof (induction ps arbitrary: m)
  case Nil
  then show ?case by simp
next
  case (Cons p ps)
  have "pushAll m (p # ps) = pushAll (push m p) ps"
    by (simp add: pushAll_def)
  then show ?case
    by (simp add: Cons.IH lookup_push)
qed

lemma findRoomRefs_xref:
  assumes "\<not> truthy (lookup asset (Rooms (QC u)))"
    and "fromXrefKeyArray (Encoding u) (lookup asset (XRooms (QC u))) = Inr (modelIds, elementKeys)"
  shows "findRoomRefs u m asset =
           Inr (map (\<lambda>i. \<lparr>modelId = ''urn:adsk.dtm:'' @ modelIds ! i, roomId = index elementKeys i\<rparr>)
                  [0 ..< length modelIds])"
  using assms by (simp add: findRoomRefs_def Let_def)

lemma processAsset_ok:
  assumes "toFullKey (Encoding u) (lookup asset (Key (QC u))) = Inr assetKey"
    and "findRoomRefs u m asset = Inr rs"
  shows "processAsset u m st asset =
           Inr (st\<lparr>assets := put (assets st) assetKey asset,
                   roomAssetsMap := linkRooms assetKey rs (roomAssetsMap st),
                   modelRooms := modelRooms st @ rs\<rparr>)"
  using assms by (simp add: processAsset_def Let_def)

text \<open>An element with neither room reference field: STEP 4 has no branch of its own for
  it and hands \<open>undefined\<close> to \<open>Encoding.fromXrefKeyArray\<close>, so what the element refers to is
  what that call returns.\<close>

lemma findRoomRefs_absent_iff:
  assumes "lookup asset (Rooms (QC u)) = None" and "lookup asset (XRooms (QC u)) = None"
  shows "findRoomRefs u m asset = Inr []
           \<longleftrightarrow> (\<exists>elementKeys. fromXrefKeyArray (Encoding u) None = Inr ([], elementKeys))"
  using assms
  by (cases "fromXrefKeyArray (Encoding u) None")
     (auto simp: findRoomRefs_def Let_def truthy_def)

lemma no_reference_fields:
  assumes "lookup asset (Rooms (QC u)) = None"
    and "lookup asset (XRooms (QC u)) = None"
    and "fromXrefKeyArray (Encoding u) None = Inr ([], elementKeys)"
    and "toFullKey (Encoding u) (lookup asset (Key (QC u))) = Inr assetKey"
  shows "findRoomRefs u m asset = Inr []
         \<and> processAsset u m st asset = Inr (st\<lparr>assets := put (assets st) assetKey asset\<rparr>)"
proof -
  from assms(1) have "\<not> truthy (lookup asset (Rooms (QC u)))"
    by (simp add: truthy_def)
  from findRoomRefs_xref [OF this, of "[]" elementKeys m] assms(2,3)
  have refs: "findRoomRefs u m asset = Inr []" by simp
  from processAsset_ok [OF assms(4) refs, of st] have
    "processAsset u m st asset = Inr (st\<lparr>assets := put (assets st) assetKey asset\<rparr>)"
    by (simp add: linkRooms_def)
  with refs show ?thesis by simp
qed

section \<open>The fields of the final state\<close>

lemma set_foldl_add: "set (foldl add s xs) = set s \<union> set xs"
  by (induction xs arbitrary: s) (auto simp: add_def)

lemma distinct_foldl_add: "distinct s \<Longrightarrow> distinct (foldl add s xs)"
  by (induction xs arbitrary: s) (auto simp: add_def)

lemma set_newSet: "set (newSet xs) = set xs"
  by (simp add: newSet_def set_foldl_add)

lemma distinct_newSet: "distinct (newSet xs)"
  by (simp add: newSet_def distinct_foldl_add)

lemma map_fst_put: "map fst (put m k v) = add (map fst m) k"
  by (induction m) (force simp: add_def split: if_splits)+

lemma set_put: "set (put m k v) \<subseteq> set m \<union> {(k, v)}"
  by (induction m) (auto split: if_splits)

lemma map_fst_putAll: "map fst (putAll m kvs) = foldl add (map fst m) (map fst kvs)"
  by (induction kvs arbitrary: m) (simp_all add: putAll_def map_fst_put)

lemma set_putAll: "set (putAll m kvs) \<subseteq> set m \<union> set kvs"
proof (induction kvs arbitrary: m)
  case Nil
  then show ?case by simp
next
  case (Cons kv kvs)
  have "putAll m (kv # kvs) = putAll (put m (fst kv) (snd kv)) kvs"
    by (simp add: putAll_def)
  with Cons.IH [of "put m (fst kv) (snd kv)"] set_put [of m "fst kv" "snd kv"]
  show ?case by auto
qed

lemma map_fst_pushAll: "map fst (pushAll m ps) = foldl add (map fst m) (map fst ps)"
  by (induction ps arbitrary: m) (simp_all add: pushAll_def push_def map_fst_put)

lemma lookup_None_iff: "lookup m k = None \<longleftrightarrow> k \<notin> fst ` set m"
  by (simp add: lookup_def map_of_eq_None_iff)

lemma main_modelRooms:
  "main u fetch fid fac = Inr st \<Longrightarrow> modelRooms st = pending u fetch fid fac"
  by (drule main_Inr) (simp add: afterModels_def afterScan_def initial_def pending_def)

lemma main_roomAssetsMap:
  "main u fetch fid fac = Inr st \<Longrightarrow> roomAssetsMap st = pushAll [] (discovered u fetch fid fac)"
  by (drule main_Inr) (simp add: afterModels_def afterScan_def initial_def discovered_def)

lemma main_assets:
  "main u fetch fid fac = Inr st \<Longrightarrow>
     assets st = putAll [] (concat (map (\<lambda>p. keyed u (snd p)) (scanned u fetch (scannedModels fid fac))))"
  by (drule main_Inr) (simp add: afterModels_def afterScan_def initial_def)

lemma main_requests:
  "main u fetch fid fac = Inr st \<Longrightarrow>
     requests st = map (taggedRequest u fetch) (scannedModels fid fac)
       @ concat (map (\<lambda>m. roomRequest u fetch (modelRooms st) m # levelRequests u fetch (modelRooms st) m)
                   (newSet (map modelId (modelRooms st))))"
  by (frule main_modelRooms, drule main_Inr)
     (simp add: afterModels_def afterScan_def initial_def pending_def pendingModels_def)

lemma main_rooms:
  "main u fetch fid fac = Inr st \<Longrightarrow>
     rooms st = putAll [] (concat (map (keyed u)
                  (concat (map (fetchedRooms u fetch (modelRooms st)) (newSet (map modelId (modelRooms st)))))))"
  by (frule main_modelRooms, drule main_Inr)
     (simp add: afterModels_def afterScan_def initial_def pending_def pendingModels_def)

lemma main_roomLevelMap:
  "main u fetch fid fac = Inr st \<Longrightarrow>
     roomLevelMap st = putAll [] (concat (map (roomLevel u)
                  (concat (map (fetchedRooms u fetch (modelRooms st)) (newSet (map modelId (modelRooms st)))))))"
  by (frule main_modelRooms, drule main_Inr)
     (simp add: afterModels_def afterScan_def initial_def pending_def pendingModels_def)

lemma main_levels:
  "main u fetch fid fac = Inr st \<Longrightarrow>
     levels st = putAll [] (concat (map (keyed u)
                  (concat (map (fetchedLevels u fetch (modelRooms st)) (newSet (map modelId (modelRooms st)))))))"
  by (frule main_modelRooms, drule main_Inr)
     (simp add: afterModels_def afterScan_def initial_def pending_def pendingModels_def)

lemma keyed_iff:
  "(k, e) \<in> set (keyed u a) \<longleftrightarrow> e = a \<and> toFullKey (Encoding u) (lookup a (Key (QC u))) = Inr k"
  by (auto simp: keyed_def split: sum.splits)

lemma scanned_iff:
  "(m, a) \<in> set (scanned u fetch ms) \<longleftrightarrow> m \<in> set ms \<and> a \<in> set (taggedAssets u fetch m)"
  by (auto simp: scanned_def)

lemma scannedModels_iff:
  "m \<in> set (scannedModels fid fac)
     \<longleftrightarrow> (\<exists>l \<in> set (links fac). link_modelId l = m \<and> \<not> isDefaultModel fid m)"
  by (auto simp: scannedModels_def)

lemma urn_taggedRequest: "urn (taggedRequest u fetch m) = m"
  and keys_taggedRequest: "keys (inputs (taggedRequest u fetch m)) = None"
  by (simp_all add: taggedRequest_def getTaggedAssets_def Let_def)

lemma roomRequest_eq:
  "roomRequest u fetch mrs m =
     \<lparr>urn = m, inputs = \<lparr>families = roomFamilies u, includeHistory = False, skipArrays = True,
                          keys = Some (roomIdsOf mrs m)\<rparr>\<rparr>"
  by (simp add: roomRequest_def getElements_def Let_def)

lemma levelRequests_eq:
  "levelRequests u fetch mrs m =
     (if levelIdsOf u fetch mrs m = [] then []
      else [\<lparr>urn = m, inputs = \<lparr>families = [Standard (ColumnFamilies u)], includeHistory = False,
                                 skipArrays = True,
                                 keys = Some (map Some (levelIdsOf u fetch mrs m))\<rparr>\<rparr>])"
  by (simp add: levelRequests_def getElements_def Let_def)

lemma filter_concat_keyed:
  assumes "distinct xs" and "x \<in> set xs" and "\<And>y r. r \<in> set (g y) \<Longrightarrow> key r = y"
  shows "filter (\<lambda>r. key r = x) (concat (map g xs)) = g x"
  using assms(1,2)
proof (induction xs)
  case Nil
  then show ?case by simp
next
  case (Cons y ys)
  have own: "filter (\<lambda>r. key r = z) (g z) = g z" for z
    using assms(3) by (simp add: filter_id_conv)
  have other: "filter (\<lambda>r. key r = x) (g z) = []" if "z \<noteq> x" for z
    using assms(3) that by (auto simp: filter_empty_conv)
  have none: "filter (\<lambda>r. key r = x) (concat (map g zs)) = []" if "x \<notin> set zs" for zs
    using that assms(3) by (induction zs) (auto simp: filter_empty_conv)
  show ?case
  proof (cases "y = x")
    case True
    with Cons.prems have "x \<notin> set ys" by simp
    with True own none show ?thesis by simp
  next
    case False
    with Cons.prems Cons.IH other show ?thesis by simp
  qed
qed

lemma demo_main: "main demoUtils demoFetch demoId demoFacility = Inr demoState"
  by code_simp

lemma isDefaultModel_urn:
  "isDefaultModel (''urn:adsk.dtt:'' @ x) m \<longleftrightarrow> m = ''urn:adsk.dtm:'' @ x"
  by (auto simp: isDefaultModel_def startsWith_def)

lemma pending_iff:
  "r \<in> set (pending u fetch fid fac)
     \<longleftrightarrow> (\<exists>m a. m \<in> set (scannedModels fid fac) \<and> a \<in> set (taggedAssets u fetch m)
                 \<and> r \<in> set (assetRefs u m a))"
  unfolding pending_def scanned_def by fastforce

lemma discovered_iff:
  "p \<in> set (discovered u fetch fid fac)
     \<longleftrightarrow> (\<exists>m a. m \<in> set (scannedModels fid fac) \<and> a \<in> set (taggedAssets u fetch m)
                 \<and> p \<in> set (assetLinks u m a))"
  unfolding discovered_def scanned_def by fastforce

lemma pass2_requests_of_model:
  assumes "main u fetch fid fac = Inr st" and "m \<in> modelId ` set (modelRooms st)"
  shows "filter (\<lambda>req. urn req = m \<and> keys (inputs req) \<noteq> None) (requests st)
           = roomRequest u fetch (modelRooms st) m # levelRequests u fetch (modelRooms st) m"
proof -
  let ?g = "\<lambda>m. roomRequest u fetch (modelRooms st) m # levelRequests u fetch (modelRooms st) m"
  let ?ms = "newSet (map modelId (modelRooms st))"
  have urn: "urn r = y" if "r \<in> set (?g y)" for r y
    using that by (auto simp: roomRequest_eq levelRequests_eq split: if_splits)
  have keyed: "keys (inputs r) \<noteq> None" if "r \<in> set (?g y)" for r y
    using that by (auto simp: roomRequest_eq levelRequests_eq split: if_splits)
  from assms(2) have m: "m \<in> set ?ms"
    by (simp add: set_newSet)
  have 1: "filter (\<lambda>r. urn r = m) (concat (map ?g ?ms)) = ?g m"
    by (rule filter_concat_keyed [OF distinct_newSet m urn])
  have 2: "filter (\<lambda>req. keys (inputs req) \<noteq> None) (map (taggedRequest u fetch) ms) = []" for ms
    by (simp add: filter_empty_conv keys_taggedRequest)
  have 3: "filter (\<lambda>req. keys (inputs req) \<noteq> None) (?g m) = ?g m"
    unfolding filter_id_conv using keyed by blast
  have "filter (\<lambda>req. urn req = m \<and> keys (inputs req) \<noteq> None) (requests st)
          = filter (\<lambda>req. keys (inputs req) \<noteq> None) (filter (\<lambda>r. urn r = m) (requests st))"
    by simp
  also have "\<dots> = filter (\<lambda>req. keys (inputs req) \<noteq> None)
                     (filter (\<lambda>r. urn r = m) (map (taggedRequest u fetch) (scannedModels fid fac)))
                   @ filter (\<lambda>req. keys (inputs req) \<noteq> None) (?g m)"
    unfolding main_requests [OF assms(1)] filter_append 1 ..
  also have "filter (\<lambda>req. keys (inputs req) \<noteq> None)
                     (filter (\<lambda>r. urn r = m) (map (taggedRequest u fetch) (scannedModels fid fac))) = []"
    by (simp add: filter_empty_conv keys_taggedRequest)
  finally show ?thesis
    using 3 by simp
qed

lemma putAll_Nil_mem: "p \<in> set (putAll [] kvs) \<Longrightarrow> p \<in> set kvs"
  using set_putAll [of "[]" kvs] by auto

lemma roomLevel_iff:
  "(k, lk) \<in> set (roomLevel u room)
     \<longleftrightarrow> truthy (lookup room (Level (QC u)))
         \<and> toFullKey (Encoding u) (lookup room (Key (QC u))) = Inr k
         \<and> toFullKey (Encoding u) (lookup room (Level (QC u))) = Inr lk"
  by (auto simp: roomLevel_def keyed_def split: sum.splits)

lemma main_rooms_mem:
  assumes "main u fetch fid fac = Inr st" and "(k, room) \<in> set (rooms st)"
  shows "\<exists>m \<in> modelId ` set (modelRooms st). room \<in> set (fetchedRooms u fetch (modelRooms st) m)
           \<and> toFullKey (Encoding u) (lookup room (Key (QC u))) = Inr k"
proof -
  let ?rs = "concat (map (fetchedRooms u fetch (modelRooms st)) (newSet (map modelId (modelRooms st))))"
  from assms(2) have "(k, room) \<in> set (putAll [] (concat (map (keyed u) ?rs)))"
    by (simp only: main_rooms [OF assms(1), symmetric])
  then have "(k, room) \<in> set (concat (map (keyed u) ?rs))"
    by (rule putAll_Nil_mem)
  then obtain e where "e \<in> set ?rs" and "(k, room) \<in> set (keyed u e)"
    by auto
  then show ?thesis
    by (auto simp: keyed_iff set_newSet)
qed

lemma main_roomLevelMap_mem:
  assumes "main u fetch fid fac = Inr st" and "(k, lk) \<in> set (roomLevelMap st)"
  shows "\<exists>m \<in> modelId ` set (modelRooms st). \<exists>room \<in> set (fetchedRooms u fetch (modelRooms st) m).
           truthy (lookup room (Level (QC u)))
           \<and> toFullKey (Encoding u) (lookup room (Key (QC u))) = Inr k
           \<and> toFullKey (Encoding u) (lookup room (Level (QC u))) = Inr lk"
proof -
  let ?rs = "concat (map (fetchedRooms u fetch (modelRooms st)) (newSet (map modelId (modelRooms st))))"
  from assms(2) have "(k, lk) \<in> set (putAll [] (concat (map (roomLevel u) ?rs)))"
    by (simp only: main_roomLevelMap [OF assms(1), symmetric])
  then have "(k, lk) \<in> set (concat (map (roomLevel u) ?rs))"
    by (rule putAll_Nil_mem)
  then obtain e where "e \<in> set ?rs" and "(k, lk) \<in> set (roomLevel u e)"
    by auto
  then show ?thesis
    by (auto simp: roomLevel_iff set_newSet)
qed

lemma foldE_Inr_step:
  "foldE f s xs = Inr s' \<Longrightarrow> x \<in> set xs \<Longrightarrow> \<exists>s1 s2. f s1 x = Inr s2"
proof (induction xs arbitrary: s)
  case Nil
  then show ?case by simp
next
  case (Cons y ys)
  from Cons.prems(1) obtain s1 where 1: "f s y = Inr s1" and 2: "foldE f s1 ys = Inr s'"
    by (auto simp: bindE_eq_Inr)
  show ?case
  proof (cases "x = y")
    case True
    with 1 show ?thesis by blast
  next
    case False
    with Cons.prems(2) have "x \<in> set ys" by simp
    from Cons.IH [OF 2 this] show ?thesis .
  qed
qed

lemma processAsset_Inr_decoded:
  assumes "processAsset u m st a = Inr st'"
  shows "\<exists>k rs. toFullKey (Encoding u) (lookup a (Key (QC u))) = Inr k \<and> findRoomRefs u m a = Inr rs"
  using assms by (auto simp: processAsset_def bindE_eq_Inr Let_def)

lemma main_scanned_decoded:
  assumes "main u fetch fid fac = Inr st"
    and "m \<in> set (scannedModels fid fac)" and "a \<in> set (taggedAssets u fetch m)"
  shows "\<exists>k rs. toFullKey (Encoding u) (lookup a (Key (QC u))) = Inr k \<and> findRoomRefs u m a = Inr rs"
proof -
  from assms(1) obtain st1 where "collectAssets u fetch fid fac initial = Inr st1"
    by (auto simp: main_def bindE_eq_Inr)
  then have fold: "foldE (processLink u fetch fid) initial (links fac) = Inr st1"
    by (simp add: collectAssets_def)
  from assms(2) obtain l where l: "l \<in> set (links fac)" "link_modelId l = m"
    "\<not> isDefaultModel fid m"
    by (auto simp: scannedModels_iff)
  from foldE_Inr_step [OF fold l(1)] obtain s1 s2 where "processLink u fetch fid s1 l = Inr s2"
    by blast
  with l(2,3) have "foldE (processAsset u m)
      (s1\<lparr>requests := requests s1 @ [taggedRequest u fetch m]\<rparr>) (taggedAssets u fetch m) = Inr s2"
    by (simp add: processLink_def taggedRequest_def taggedAssets_def assetFamilies_def
          split_beta Let_def)
  from foldE_Inr_step [OF this assms(3)] obtain s3 s4 where "processAsset u m s3 a = Inr s4"
    by blast
  then show ?thesis by (rule processAsset_Inr_decoded)
qed

lemma assetLinks_decoded:
  assumes "toFullKey (Encoding u) (lookup a (Key (QC u))) = Inr k" and "findRoomRefs u m a = Inr rs"
  shows "assetLinks u m a = map (\<lambda>r. (propKey (roomId r), k)) rs"
  using assms by (simp add: assetLinks_def keyed_def assetRefs_def)

lemma main_assetLinks:
  assumes "main u fetch fid fac = Inr st"
    and "m \<in> set (scannedModels fid fac)" and "a \<in> set (taggedAssets u fetch m)"
  shows "map fst (assetLinks u m a) = map (\<lambda>r. propKey (roomId r)) (assetRefs u m a)"
proof -
  from main_scanned_decoded [OF assms] obtain k rs
    where "toFullKey (Encoding u) (lookup a (Key (QC u))) = Inr k" "findRoomRefs u m a = Inr rs"
    by blast
  then show ?thesis
    by (simp add: assetLinks_decoded assetRefs_def o_def)
qed

lemma main_discovered_keys:
  assumes "main u fetch fid fac = Inr st"
  shows "map fst (discovered u fetch fid fac) = map (\<lambda>r. propKey (roomId r)) (modelRooms st)"
proof -
  have "map fst (assetLinks u (fst p) (snd p)) = map (\<lambda>r. propKey (roomId r)) (assetRefs u (fst p) (snd p))"
    if "p \<in> set (scanned u fetch (scannedModels fid fac))" for p
  proof -
    from that have "fst p \<in> set (scannedModels fid fac)" "snd p \<in> set (taggedAssets u fetch (fst p))"
      using scanned_iff [of "fst p" "snd p"] by simp_all
    from main_assetLinks [OF assms this] show ?thesis .
  qed
  then have eq: "map (\<lambda>p. map fst (assetLinks u (fst p) (snd p))) (scanned u fetch (scannedModels fid fac))
           = map (\<lambda>p. map (\<lambda>r. propKey (roomId r)) (assetRefs u (fst p) (snd p)))
               (scanned u fetch (scannedModels fid fac))"
    by (intro map_cong refl)
  have "map fst (discovered u fetch fid fac)
          = concat (map (\<lambda>p. map fst (assetLinks u (fst p) (snd p)))
                      (scanned u fetch (scannedModels fid fac)))"
    by (simp add: discovered_def map_concat o_def)
  also have "\<dots> = concat (map (\<lambda>p. map (\<lambda>r. propKey (roomId r)) (assetRefs u (fst p) (snd p)))
                        (scanned u fetch (scannedModels fid fac)))"
    by (simp only: eq)
  also have "\<dots> = map (\<lambda>r. propKey (roomId r)) (pending u fetch fid fac)"
    by (simp add: pending_def map_concat o_def)
  finally show ?thesis
    by (simp only: main_modelRooms [OF assms])
qed

lemma lookup_Nil: "lookup [] k = None"
  by (simp add: lookup_def)

lemma lookup_pushAll_Nil:
  "lookup (pushAll [] ps) k =
     (if filter (\<lambda>p. fst p = k) ps = [] then None
      else Some (map snd (filter (\<lambda>p. fst p = k) ps)))"
  by (simp add: lookup_pushAll lookup_Nil)

lemma main_bucket:
  assumes "main u fetch fid fac = Inr st"
  shows "lookup (roomAssetsMap st) k =
     (if filter (\<lambda>p. fst p = k) (discovered u fetch fid fac) = [] then None
      else Some (map snd (filter (\<lambda>p. fst p = k) (discovered u fetch fid fac))))"
  unfolding main_roomAssetsMap [OF assms] by (rule lookup_pushAll_Nil)

lemma main_bucket_of_pending:
  assumes "main u fetch fid fac = Inr st" and "r \<in> set (modelRooms st)"
  shows "\<exists>ids. lookup (roomAssetsMap st) (propKey (roomId r)) = Some ids \<and> ids \<noteq> []"
proof -
  let ?k = "propKey (roomId r)"
  from assms(2) have "?k \<in> set (map (\<lambda>r. propKey (roomId r)) (modelRooms st))"
    by simp
  then have "?k \<in> set (map fst (discovered u fetch fid fac))"
    by (simp only: main_discovered_keys [OF assms(1)])
  then obtain p where "p \<in> set (discovered u fetch fid fac)" "fst p = ?k"
    by auto
  then have "filter (\<lambda>p. fst p = ?k) (discovered u fetch fid fac) \<noteq> []"
    by (auto simp: filter_empty_conv)
  then show ?thesis
    by (simp add: main_bucket [OF assms(1)])
qed

section \<open>Runs that do not throw\<close>

lemma foldE_total:
  "(\<And>s x. x \<in> set xs \<Longrightarrow> \<exists>s'. f s x = Inr s') \<Longrightarrow> \<exists>s'. foldE f s xs = Inr s'"
proof (induction xs arbitrary: s)
  case Nil
  then show ?case by simp
next
  case (Cons x xs)
  from Cons.prems [of x s] obtain s1 where "f s x = Inr s1" by auto
  moreover from Cons.IH [of s1] Cons.prems obtain s' where "foldE f s1 xs = Inr s'" by auto
  ultimately show ?case by simp
qed

lemma mapE_total:
  "(\<And>x. x \<in> set xs \<Longrightarrow> \<exists>y. f x = Inr y) \<Longrightarrow> \<exists>ys. mapE f xs = Inr ys"
proof (induction xs)
  case Nil
  then show ?case by simp
next
  case (Cons x xs)
  from Cons.prems [of x] obtain y where "f x = Inr y" by auto
  moreover from Cons.IH Cons.prems obtain ys where "mapE f xs = Inr ys" by auto
  ultimately show ?case by simp
qed

lemma findRoomRefs_total:
  assumes "\<forall>s. \<exists>k. toFullKey (Encoding u) (Some s) = Inr k"
    and "\<forall>s. \<exists>ks. fromShortKeyArray (Encoding u) s = Inr ks"
    and "\<forall>x. \<exists>p. fromXrefKeyArray (Encoding u) x = Inr p"
  shows "\<exists>rs. findRoomRefs u m a = Inr rs"
proof (cases "truthy (lookup a (Rooms (QC u)))")
  case True
  from assms(2) obtain ks where ks: "fromShortKeyArray (Encoding u) (the (lookup a (Rooms (QC u)))) = Inr ks"
    by blast
  have "\<exists>rs. mapE (\<lambda>roomKey. bindE (toFullKey (Encoding u) (Some roomKey)) (\<lambda>fullKey.
                  Inr \<lparr>modelId = m, roomId = Some fullKey\<rparr>)) ks = Inr rs"
  proof (rule mapE_total)
    fix x
    from assms(1) obtain k where "toFullKey (Encoding u) (Some x) = Inr k" by blast
    then show "\<exists>y. bindE (toFullKey (Encoding u) (Some x)) (\<lambda>fullKey.
                  Inr \<lparr>modelId = m, roomId = Some fullKey\<rparr>) = Inr y"
      by simp
  qed
  with True ks show ?thesis
    by (simp add: findRoomRefs_def Let_def)
next
  case False
  from assms(3) obtain p where "fromXrefKeyArray (Encoding u) (lookup a (XRooms (QC u))) = Inr p"
    by blast
  with False show ?thesis
    by (simp add: findRoomRefs_def Let_def)
qed

lemma keyed_total:
  assumes "\<forall>s. \<exists>k. toFullKey (Encoding u) (Some s) = Inr k"
    and "lookup e (Key (QC u)) \<noteq> None"
  shows "\<exists>k. toFullKey (Encoding u) (lookup e (Key (QC u))) = Inr k"
  using assms by (cases "lookup e (Key (QC u))") auto

lemma processAsset_total:
  assumes "\<forall>s. \<exists>k. toFullKey (Encoding u) (Some s) = Inr k"
    and "\<forall>s. \<exists>ks. fromShortKeyArray (Encoding u) s = Inr ks"
    and "\<forall>x. \<exists>p. fromXrefKeyArray (Encoding u) x = Inr p"
    and "lookup a (Key (QC u)) \<noteq> None"
  shows "\<exists>st'. processAsset u m st a = Inr st'"
proof -
  from keyed_total [OF assms(1,4)] obtain k
    where "toFullKey (Encoding u) (lookup a (Key (QC u))) = Inr k" ..
  moreover from findRoomRefs_total [OF assms(1,2,3)] obtain rs
    where "findRoomRefs u m a = Inr rs" ..
  ultimately show ?thesis
    by (simp add: processAsset_ok)
qed

lemma taggedAssets_subset:
  "set (taggedAssets u fetch m) \<subseteq> set (fetch (taggedRequest u fetch m))"
  by (auto simp: taggedAssets_def taggedRequest_def getTaggedAssets_def Let_def)

lemma processLink_total:
  assumes "\<forall>s. \<exists>k. toFullKey (Encoding u) (Some s) = Inr k"
    and "\<forall>s. \<exists>ks. fromShortKeyArray (Encoding u) s = Inr ks"
    and "\<forall>x. \<exists>p. fromXrefKeyArray (Encoding u) x = Inr p"
    and "\<forall>req. \<forall>e \<in> set (fetch req). lookup e (Key (QC u)) \<noteq> None"
  shows "\<exists>st'. processLink u fetch fid st l = Inr st'"
proof (cases "isDefaultModel fid (link_modelId l)")
  case True
  then show ?thesis by (simp add: processLink_def)
next
  case False
  have "\<exists>st'. foldE (processAsset u (link_modelId l))
      (st\<lparr>requests := requests st @ [taggedRequest u fetch (link_modelId l)]\<rparr>)
      (taggedAssets u fetch (link_modelId l)) = Inr st'"
  proof (rule foldE_total)
    fix s a assume "a \<in> set (taggedAssets u fetch (link_modelId l))"
    with taggedAssets_subset assms(4) have "lookup a (Key (QC u)) \<noteq> None"
      by blast
    from processAsset_total [OF assms(1,2,3) this]
    show "\<exists>s'. processAsset u (link_modelId l) s a = Inr s'" .
  qed
  with False show ?thesis
    by (simp add: processLink_def taggedRequest_def taggedAssets_def assetFamilies_def
          split_beta Let_def)
qed

lemma processRoom_total:
  assumes "\<forall>s. \<exists>k. toFullKey (Encoding u) (Some s) = Inr k"
    and "lookup room (Key (QC u)) \<noteq> None"
  shows "\<exists>sl'. processRoom u sl room = Inr sl'"
proof -
  from keyed_total [OF assms] obtain k
    where k: "toFullKey (Encoding u) (lookup room (Key (QC u))) = Inr k" ..
  show ?thesis
  proof (cases "truthy (lookup room (Level (QC u)))")
    case True
    then obtain s where "lookup room (Level (QC u)) = Some s"
      by (auto simp: truthy_def split: option.splits)
    with assms(1) obtain lk where "toFullKey (Encoding u) (lookup room (Level (QC u))) = Inr lk"
      by auto
    with k True show ?thesis
      by (simp add: processRoom_def Let_def)
  next
    case False
    with k show ?thesis
      by (simp add: processRoom_def Let_def)
  qed
qed

lemma processLevel_total:
  assumes "\<forall>s. \<exists>k. toFullKey (Encoding u) (Some s) = Inr k"
    and "lookup level (Key (QC u)) \<noteq> None"
  shows "\<exists>st'. processLevel u st level = Inr st'"
proof -
  from keyed_total [OF assms] obtain k
    where "toFullKey (Encoding u) (lookup level (Key (QC u))) = Inr k" ..
  then show ?thesis
    by (simp add: processLevel_def)
qed

lemma processModel_total:
  assumes "\<forall>s. \<exists>k. toFullKey (Encoding u) (Some s) = Inr k"
    and "\<forall>req. \<forall>e \<in> set (fetch req). lookup e (Key (QC u)) \<noteq> None"
  shows "\<exists>st'. processModel u fetch st m = Inr st'"
proof -
  let ?st0 = "st\<lparr>requests := requests st @ [roomRequest u fetch (modelRooms st) m]\<rparr>"
  have "\<exists>sl. foldE (processRoom u) (?st0, []) (fetchedRooms u fetch (modelRooms st) m) = Inr sl"
  proof (rule foldE_total)
    fix s room assume "room \<in> set (fetchedRooms u fetch (modelRooms st) m)"
    with assms(2) have "lookup room (Key (QC u)) \<noteq> None"
      by (auto simp: fetchedRooms_def getElements_def Let_def)
    from processRoom_total [OF assms(1) this] show "\<exists>s'. processRoom u s room = Inr s'" .
  qed
  then obtain sl where sl:
    "foldE (processRoom u) (?st0, []) (fetchedRooms u fetch (modelRooms st) m) = Inr sl" ..
  have lv: "\<exists>st'. foldE (processLevel u) s (snd (getElements u fetch m ks None)) = Inr st'" for s ks
  proof (rule foldE_total)
    fix s' level assume "level \<in> set (snd (getElements u fetch m ks None))"
    with assms(2) have "lookup level (Key (QC u)) \<noteq> None"
      by (auto simp: getElements_def Let_def)
    from processLevel_total [OF assms(1) this] show "\<exists>s''. processLevel u s' level = Inr s''" .
  qed
  from lv [of "(fst sl)\<lparr>requests := requests (fst sl)
              @ [fst (getElements u fetch m (Some (map Some (snd sl))) None)]\<rparr>"
            "Some (map Some (snd sl))"]
  obtain st2 where "foldE (processLevel u)
      ((fst sl)\<lparr>requests := requests (fst sl) @ [fst (getElements u fetch m (Some (map Some (snd sl))) None)]\<rparr>)
      (snd (getElements u fetch m (Some (map Some (snd sl))) None)) = Inr st2" ..
  with sl show ?thesis
    by (simp add: processModel_def Let_def split_beta roomRequest_def fetchedRooms_def
          roomIdsOf_def roomFamilies_def)
qed

lemma main_total:
  assumes "\<forall>s. \<exists>k. toFullKey (Encoding u) (Some s) = Inr k"
    and "\<forall>s. \<exists>ks. fromShortKeyArray (Encoding u) s = Inr ks"
    and "\<forall>x. \<exists>p. fromXrefKeyArray (Encoding u) x = Inr p"
    and "\<forall>req. \<forall>e \<in> set (fetch req). lookup e (Key (QC u)) \<noteq> None"
  shows "\<exists>st. main u fetch fid fac = Inr st"
proof -
  have "\<exists>st1. foldE (processLink u fetch fid) initial (links fac) = Inr st1"
    by (rule foldE_total) (rule processLink_total [OF assms])
  then obtain st1 where 1: "collectAssets u fetch fid fac initial = Inr st1"
    by (auto simp: collectAssets_def)
  have "\<exists>st. foldE (processModel u fetch) st1 (newSet (map modelId (modelRooms st1))) = Inr st"
    by (rule foldE_total) (rule processModel_total [OF assms(1,4)])
  with 1 show ?thesis
    by (simp add: main_def Let_def)
qed

lemma getRoomsByLevel_keys:
  "fst ` set (getRoomsByLevel d levelKey) \<subseteq> fst ` set (rooms d)"
  by (force simp: getRoomsByLevel_def image_iff)

lemma demo_fetchedRooms:
  "fetchedRooms demoUtils demoFetch (modelRooms demoState) ''urn:adsk.dtm:A'' = [roomR]"
  "fetchedRooms demoUtils demoFetch (modelRooms demoState) ''urn:adsk.dtm:B'' = [roomT]"
  by code_simp+

lemma demo_discovered:
  "discovered demoUtils demoFetch demoId demoFacility
     = [(''FR'', ''Fp''), (''FS'', ''Fp''), (''FT'', ''Fq''), (''FR'', ''Fv'')]"
  by code_simp

section \<open>STEP 7\<close>

lemma mapE_ok_iff: "(\<exists>ys. mapE f xs = Inr ys) \<longleftrightarrow> (\<forall>x \<in> set xs. \<exists>y. f x = Inr y)"
proof (induction xs)
  case Nil
  then show ?case by simp
next
  case (Cons x xs)
  show ?case
  proof (cases "f x")
    case (Inl e)
    then show ?thesis by auto
  next
    case (Inr y)
    show ?thesis
    proof (cases "mapE f xs")
      case (Inl e)
      with Inr Cons.IH show ?thesis by auto
    next
      case ys: (Inr ys)
      with Inr Cons.IH show ?thesis by auto
    qed
  qed
qed

lemma lookup_defined: "(k, v) \<in> set m \<Longrightarrow> lookup m k \<noteq> None"
  unfolding lookup_None_iff by force

lemma getLevels_defined: "p \<in> set (getLevels d) \<Longrightarrow> snd p \<noteq> None"
  by (auto simp: getLevels_def dest: lookup_defined)

lemma getRoomsByLevel_defined: "p \<in> set (getRoomsByLevel d levelKey) \<Longrightarrow> snd p \<noteq> None"
  by (auto simp: getRoomsByLevel_def dest: lookup_defined)

lemma fst_getLevels: "fst ` set (getLevels d) = fst ` set (levels d)"
  by (force simp: getLevels_def image_iff)

lemma printAsset_ok_iff: "(\<exists>y. printAsset u p = Inr y) \<longleftrightarrow> snd p \<noteq> None"
  by (cases "snd p") (simp_all add: printAsset_def)

lemma printRoom_ok_iff:
  "(\<exists>ls. printRoom u d p = Inr ls)
     \<longleftrightarrow> snd p \<noteq> None
         \<and> (\<exists>ids. lookup (roomAssetsMap d) (fst p) = Some ids
                  \<and> (\<forall>a \<in> set ids. lookup (assets d) a \<noteq> None))"
proof (cases "snd p")
  case None
  then show ?thesis by (simp add: printRoom_def)
next
  case (Some room)
  show ?thesis
  proof (cases "lookup (roomAssetsMap d) (fst p)")
    case None
    with Some show ?thesis by (simp add: printRoom_def getAssetsByRoom_def)
  next
    case ids: (Some ids)
    let ?found = "map (\<lambda>assetKey. (assetKey, lookup (assets d) assetKey)) ids"
    have "(\<exists>ls. printRoom u d p = Inr ls) \<longleftrightarrow> (\<exists>ls. mapE (printAsset u) ?found = Inr ls)"
      using Some ids
      by (cases "mapE (printAsset u) ?found") (simp_all add: printRoom_def getAssetsByRoom_def)
    also have "\<dots> \<longleftrightarrow> (\<forall>a \<in> set ids. lookup (assets d) a \<noteq> None)"
      by (simp add: mapE_ok_iff printAsset_ok_iff)
    finally show ?thesis
      using Some ids by simp
  qed
qed

lemma printLevel_ok_iff:
  "(\<exists>ls. printLevel u d p = Inr ls)
     \<longleftrightarrow> snd p \<noteq> None \<and> (\<forall>q \<in> set (getRoomsByLevel d (fst p)). \<exists>ls. printRoom u d q = Inr ls)"
proof (cases "snd p")
  case None
  then show ?thesis by (simp add: printLevel_def)
next
  case (Some level)
  have "(\<exists>ls. printLevel u d p = Inr ls)
          \<longleftrightarrow> (\<exists>ls. mapE (printRoom u d) (getRoomsByLevel d (fst p)) = Inr ls)"
    using Some
    by (cases "mapE (printRoom u d) (getRoomsByLevel d (fst p))") (simp_all add: printLevel_def)
  then show ?thesis
    using Some by (simp add: mapE_ok_iff)
qed

lemma listStructure_ok_iff:
  "(\<exists>out. listStructure u d = Inr out)
     \<longleftrightarrow> (\<forall>p \<in> set (getLevels d). \<exists>ls. printLevel u d p = Inr ls)"
proof -
  have "(\<exists>out. listStructure u d = Inr out)
          \<longleftrightarrow> (\<exists>ls. mapE (printLevel u d) (getLevels d) = Inr ls)"
    by (cases "mapE (printLevel u d) (getLevels d)") (simp_all add: listStructure_def)
  then show ?thesis
    by (simp add: mapE_ok_iff)
qed

lemma fst_set_putAll_Nil: "fst ` set (putAll [] kvs) = fst ` set kvs"
proof -
  have "set (map fst (putAll [] kvs)) = set (map fst kvs)"
    by (simp only: map_fst_putAll set_foldl_add) simp
  then show ?thesis by simp
qed

lemma main_bucket_assets:
  assumes "main u fetch fid fac = Inr st"
    and "lookup (roomAssetsMap st) k = Some ids" and "a \<in> set ids"
  shows "lookup (assets st) a \<noteq> None"
proof -
  from assms(2) have "ids = map snd (filter (\<lambda>p. fst p = k) (discovered u fetch fid fac))"
    by (simp add: main_bucket [OF assms(1)] split: if_splits)
  with assms(3) obtain p where p: "p \<in> set (discovered u fetch fid fac)" and a: "a = snd p"
    by auto
  from p obtain m e where m: "m \<in> set (scannedModels fid fac)"
    and e: "e \<in> set (taggedAssets u fetch m)" and pl: "p \<in> set (assetLinks u m e)"
    unfolding discovered_iff by blast
  from pl a obtain ka where ka: "ka \<in> set (keyed u e)" and "a = fst ka"
    by (auto simp: assetLinks_def)
  from m e have "(m, e) \<in> set (scanned u fetch (scannedModels fid fac))"
    by (simp add: scanned_iff)
  with ka have "ka \<in> set (concat (map (\<lambda>p. keyed u (snd p)) (scanned u fetch (scannedModels fid fac))))"
    by force
  then have "fst ka \<in> fst ` set (assets st)"
    unfolding main_assets [OF assms(1)] fst_set_putAll_Nil by (rule imageI)
  with \<open>a = fst ka\<close> show ?thesis
    by (simp add: lookup_None_iff)
qed

lemma main_listStructure_iff:
  assumes "main u fetch fid fac = Inr st"
  shows "(\<exists>out. listStructure u st = Inr out)
     \<longleftrightarrow> (\<forall>levelKey \<in> fst ` set (levels st).
            \<forall>roomKey \<in> fst ` set (getRoomsByLevel st levelKey).
              lookup (roomAssetsMap st) roomKey \<noteq> None)"
proof -
  have room: "(\<exists>ls. printRoom u st q = Inr ls) \<longleftrightarrow> lookup (roomAssetsMap st) (fst q) \<noteq> None"
    if "q \<in> set (getRoomsByLevel st levelKey)" for q levelKey
    using getRoomsByLevel_defined [OF that] main_bucket_assets [OF assms]
    by (auto simp: printRoom_ok_iff)
  have level: "(\<exists>ls. printLevel u st p = Inr ls)
        \<longleftrightarrow> (\<forall>q \<in> set (getRoomsByLevel st (fst p)). lookup (roomAssetsMap st) (fst q) \<noteq> None)"
    if "p \<in> set (getLevels st)" for p
    using getLevels_defined [OF that] room
    by (simp add: printLevel_ok_iff)
  have "(\<exists>out. listStructure u st = Inr out)
     \<longleftrightarrow> (\<forall>p \<in> set (getLevels st).
            \<forall>q \<in> set (getRoomsByLevel st (fst p)). lookup (roomAssetsMap st) (fst q) \<noteq> None)"
    using level by (simp add: listStructure_ok_iff)
  also have "\<dots> \<longleftrightarrow> (\<forall>levelKey \<in> fst ` set (getLevels st).
            \<forall>roomKey \<in> fst ` set (getRoomsByLevel st levelKey).
              lookup (roomAssetsMap st) roomKey \<noteq> None)"
    by simp
  finally show ?thesis
    by (simp only: fst_getLevels)
qed

lemma mainWithOutput_iff:
  "mainWithOutput u fetch fid fac = Inr (st, out)
     \<longleftrightarrow> main u fetch fid fac = Inr st \<and> listStructure u st = Inr out"
  by (auto simp: mainWithOutput_def bindE_eq_Inr)

lemma stray_main:
  "mainWithOutput demoUtils strayFetch demoId demoFacility = Inl TypeError"
  by code_simp

lemma demo_output:
  "mainWithOutput demoUtils demoFetch demoId demoFacility
     = Inr (demoState, [''facility data list'', ''Level 1'', ''  undefined'',
                        ''    undefined'', ''    undefined''])"
  by code_simp

section \<open>The claims\<close>

text \<open>
  C1. Let an asset, scanned in a model \<open>A\<close> that is not the default model, have no
  same-model room reference, and let its cross-model reference decode to the model ids
  \<open>modelIds\<close> and the element keys \<open>elementKeys\<close>. Then its reference number \<open>i\<close> has the
  model \<open>urn:adsk.dtm:\<close> followed by \<open>modelIds[i]\<close>, whatever \<open>A\<close> is, it is among the
  pending rooms, and STEP 6 sends a room fetch (families standard and refs) to that
  model, with the room's key among the keys asked for.
\<close>

theorem C1_xref_room_is_fetched_from_its_own_model:
  assumes "main u fetch fid fac = Inr st"
    and "l \<in> set (links fac)" and "\<not> isDefaultModel fid (link_modelId l)"
    and "asset \<in> set (taggedAssets u fetch (link_modelId l))"
    and "\<not> truthy (lookup asset (Rooms (QC u)))"
    and "fromXrefKeyArray (Encoding u) (lookup asset (XRooms (QC u))) = Inr (modelIds, elementKeys)"
    and "i < length modelIds"
  shows "\<exists>rs ks. findRoomRefs u (link_modelId l) asset = Inr rs \<and> i < length rs
            \<and> rs ! i = \<lparr>modelId = ''urn:adsk.dtm:'' @ modelIds ! i, roomId = index elementKeys i\<rparr>
            \<and> rs ! i \<in> set (modelRooms st)
            \<and> \<lparr>urn = ''urn:adsk.dtm:'' @ modelIds ! i,
                inputs = \<lparr>families = [Standard (ColumnFamilies u), Refs (ColumnFamilies u)],
                           includeHistory = False, skipArrays = True, keys = Some ks\<rparr>\<rparr>
                 \<in> set (requests st)
            \<and> index elementKeys i \<in> set ks"
proof -
  let ?A = "link_modelId l"
  let ?B = "''urn:adsk.dtm:'' @ modelIds ! i"
  let ?rs = "map (\<lambda>i. \<lparr>modelId = ''urn:adsk.dtm:'' @ modelIds ! i, roomId = index elementKeys i\<rparr>)
               [0 ..< length modelIds]"
  let ?r = "\<lparr>modelId = ?B, roomId = index elementKeys i\<rparr>"
  have refs: "findRoomRefs u ?A asset = Inr ?rs"
    by (rule findRoomRefs_xref [OF assms(5,6)])
  from assms(7) have nth: "?rs ! i = ?r" and len: "i < length ?rs"
    by simp_all
  from assms(2,3) have A: "?A \<in> set (scannedModels fid fac)"
    by (auto simp: scannedModels_iff)
  from refs have "assetRefs u ?A asset = ?rs"
    by (simp add: assetRefs_def)
  moreover from assms(7) have "?r \<in> set ?rs"
    unfolding set_map by (intro image_eqI [where x = i]) simp_all
  ultimately have mem: "?r \<in> set (assetRefs u ?A asset)"
    by simp
  have "?r \<in> set (pending u fetch fid fac)"
    unfolding pending_iff by (intro exI [of _ ?A] exI [of _ asset] conjI A assms(4) mem)
  with main_modelRooms [OF assms(1)] have pend: "?r \<in> set (modelRooms st)"
    by simp
  then have "?B \<in> set (newSet (map modelId (modelRooms st)))"
    by (force simp: set_newSet)
  then have "roomRequest u fetch (modelRooms st) ?B \<in> set (requests st)"
    unfolding main_requests [OF assms(1)] by auto
  moreover from pend have "index elementKeys i \<in> set (roomIdsOf (modelRooms st) ?B)"
    by (force simp: roomIdsOf_def set_newSet)
  ultimately show ?thesis
    using refs nth len pend
    by (intro exI [of _ ?rs] exI [of _ "roomIdsOf (modelRooms st) ?B"])
       (simp add: roomRequest_eq roomFamilies_def)
qed

theorem C1_witness:
  "findRoomRefs demoUtils ''urn:adsk.dtm:A'' fan
     = Inr [\<lparr>modelId = ''urn:adsk.dtm:B'', roomId = Some ''FT''\<rparr>]
   \<and> (\<exists>rs ks. findRoomRefs demoUtils ''urn:adsk.dtm:A'' fan = Inr rs \<and> 0 < length rs
         \<and> rs ! 0 = \<lparr>modelId = ''urn:adsk.dtm:B'', roomId = Some ''FT''\<rparr>
         \<and> rs ! 0 \<in> set (modelRooms demoState)
         \<and> \<lparr>urn = ''urn:adsk.dtm:B'',
             inputs = \<lparr>families = [''n'', ''l''], includeHistory = False, skipArrays = True,
                        keys = Some ks\<rparr>\<rparr> \<in> set (requests demoState)
         \<and> Some ''FT'' \<in> set ks)"
proof -
  let ?l = "\<lparr>link_modelId = ''urn:adsk.dtm:A''\<rparr>"
  have 2: "?l \<in> set (links demoFacility)"
    by (simp add: demoFacility_def)
  have 3: "\<not> isDefaultModel demoId (link_modelId ?l)"
    by (simp add: demoId_def isDefaultModel_def startsWith_def)
  have 4: "fan \<in> set (taggedAssets demoUtils demoFetch (link_modelId ?l))"
    by code_simp
  have 5: "\<not> truthy (lookup fan (Rooms (QC demoUtils)))"
    by (simp add: truthy_def lookup_def fan_def demoUtils_def)
  have 6: "fromXrefKeyArray (Encoding demoUtils) (lookup fan (XRooms (QC demoUtils)))
            = Inr ([''B''], [''FT''])"
    by (simp add: lookup_def fan_def demoUtils_def demoEncoding_def)
  have 7: "0 < length [''B'']" by simp
  have 8: "findRoomRefs demoUtils ''urn:adsk.dtm:A'' fan
     = Inr [\<lparr>modelId = ''urn:adsk.dtm:B'', roomId = Some ''FT''\<rparr>]"
    by code_simp
  from C1_xref_room_is_fetched_from_its_own_model [OF demo_main 2 3 4 5 6 7] 8
  show ?thesis
    by (simp add: index_def demoUtils_def)
qed

text \<open>
  C2. The default model of a facility is the facility's URN with \<open>urn:adsk.dtt:\<close>
  replaced by \<open>urn:adsk.dtm:\<close>. In a run of \<open>main\<close> no asset scan (a request without
  keys) is sent to the default model, and every entry of \<open>assets\<close> is an element that the
  asset scan of a linked model other than the default model returned, stored under its
  own full key.
\<close>

theorem C2_default_model_is_never_scanned:
  assumes "main u fetch fid fac = Inr st"
  shows "(\<forall>req \<in> set (requests st). keys (inputs req) = None \<longrightarrow> \<not> isDefaultModel fid (urn req))
       \<and> (\<forall>(k, e) \<in> set (assets st).
            \<exists>l \<in> set (links fac). \<not> isDefaultModel fid (link_modelId l)
               \<and> e \<in> set (taggedAssets u fetch (link_modelId l))
               \<and> toFullKey (Encoding u) (lookup e (Key (QC u))) = Inr k)
       \<and> (isDefaultModel (''urn:adsk.dtt:'' @ x) m \<longleftrightarrow> m = ''urn:adsk.dtm:'' @ x)"
proof -
  have "\<not> isDefaultModel fid (urn req)" if "req \<in> set (requests st)" "keys (inputs req) = None" for req
  proof -
    from that(1) main_requests [OF assms]
    consider (scan) m where "m \<in> set (scannedModels fid fac)" "req = taggedRequest u fetch m"
      | (room) m where "req = roomRequest u fetch (modelRooms st) m"
      | (level) m where "req \<in> set (levelRequests u fetch (modelRooms st) m)"
      by auto
    then show ?thesis
    proof cases
      case scan
      then show ?thesis by (simp add: urn_taggedRequest scannedModels_iff)
    next
      case room
      with that(2) show ?thesis by (simp add: roomRequest_eq)
    next
      case level
      with that(2) show ?thesis by (simp add: levelRequests_eq split: if_splits)
    qed
  qed
  moreover have "\<exists>l \<in> set (links fac). \<not> isDefaultModel fid (link_modelId l)
               \<and> e \<in> set (taggedAssets u fetch (link_modelId l))
               \<and> toFullKey (Encoding u) (lookup e (Key (QC u))) = Inr k"
    if "(k, e) \<in> set (assets st)" for k e
  proof -
    from that set_putAll [of "[]" "concat (map (\<lambda>p. keyed u (snd p)) (scanned u fetch (scannedModels fid fac)))"]
    have "(k, e) \<in> set (concat (map (\<lambda>p. keyed u (snd p)) (scanned u fetch (scannedModels fid fac))))"
      unfolding main_assets [OF assms] by auto
    then obtain m a where "(m, a) \<in> set (scanned u fetch (scannedModels fid fac))"
      and "(k, e) \<in> set (keyed u a)"
      by auto
    then show ?thesis
      by (auto simp: keyed_iff scanned_iff scannedModels_iff)
  qed
  ultimately show ?thesis
    unfolding isDefaultModel_urn by auto
qed

theorem C2_witness:
  "main demoUtils demoFetch demoId demoFacility = Inr demoState
   \<and> isDefaultModel demoId ''urn:adsk.dtm:D''
   \<and> \<not> isDefaultModel demoId ''urn:adsk.dtm:A''
   \<and> map fst (assets demoState) = [''Fp'', ''Fq'', ''Fs'', ''Fv'']"
proof -
  let ?req = "\<lparr>urn = ''urn:adsk.dtm:A'',
               inputs = \<lparr>families = [''n'', ''z'', ''l'', ''x''], includeHistory = False,
                          skipArrays = True, keys = None\<rparr>\<rparr>"
  have "?req \<in> set (requests demoState)"
    by (simp add: demoState_def)
  with C2_default_model_is_never_scanned [OF demo_main, of "''D''" "''urn:adsk.dtm:D''"]
  have "\<not> isDefaultModel demoId (urn ?req)" and "isDefaultModel demoId ''urn:adsk.dtm:D''"
    by (auto simp: demoId_def)
  with demo_main show ?thesis
    by (simp add: demoState_def)
qed

text \<open>
  C3, as stated, fails: an asset is pushed to one bucket for each room id among its
  references, and the room id does not hold the model. On the worked codec the asset
  \<open>c\<close> refers to the room \<open>K\<close> of model \<open>B\<close> and to the room \<open>K\<close> of model \<open>C\<close>, two rooms, and is
  pushed twice to the one bucket \<open>FK\<close>.
\<close>

theorem C3_counterexample:
  "findRoomRefs demoUtils ''urn:adsk.dtm:A'' duct
     = Inr [\<lparr>modelId = ''urn:adsk.dtm:B'', roomId = Some ''FK''\<rparr>,
            \<lparr>modelId = ''urn:adsk.dtm:C'', roomId = Some ''FK''\<rparr>]
   \<and> \<lparr>modelId = ''urn:adsk.dtm:B'', roomId = Some ''FK''\<rparr>
       \<noteq> \<lparr>modelId = ''urn:adsk.dtm:C'', roomId = Some ''FK''\<rparr>
   \<and> processAsset demoUtils ''urn:adsk.dtm:A'' initial duct
     = Inr (initial\<lparr>assets := [(''Fc'', duct)],
                   roomAssetsMap := [(''FK'', [''Fc'', ''Fc''])],
                   modelRooms := [\<lparr>modelId = ''urn:adsk.dtm:B'', roomId = Some ''FK''\<rparr>,
                                  \<lparr>modelId = ''urn:adsk.dtm:C'', roomId = Some ''FK''\<rparr>]\<rparr>)"
proof -
  have refs: "findRoomRefs demoUtils ''urn:adsk.dtm:A'' duct
     = Inr [\<lparr>modelId = ''urn:adsk.dtm:B'', roomId = Some ''FK''\<rparr>,
            \<lparr>modelId = ''urn:adsk.dtm:C'', roomId = Some ''FK''\<rparr>]"
    by code_simp
  have key: "toFullKey (Encoding demoUtils) (lookup duct (Key (QC demoUtils))) = Inr ''Fc''"
    by (simp add: duct_def lookup_def demoUtils_def demoEncoding_def)
  from processAsset_ok [OF key refs, of initial] refs show ?thesis
    by (simp add: initial_def linkRooms_def linkRoom_def propKey_def lookup_def)
qed

text \<open>
  C3, amended. STEP 5 pushes the key of an asset once for every room reference of the
  asset, to the bucket named by the room id of the reference (\<open>"undefined"\<close> when the id
  is missing); a bucket that does not exist yet starts empty. So the buckets that change
  are exactly those of the distinct room ids among the references, each gets the asset
  as many times as the id occurs, and their number is the number of distinct room ids.
\<close>

theorem C3_asset_is_pushed_to_each_room_key:
  assumes "toFullKey (Encoding u) (lookup asset (Key (QC u))) = Inr assetKey"
    and "findRoomRefs u m asset = Inr rs"
  shows "\<exists>st'. processAsset u m st asset = Inr st'
     \<and> (\<forall>k. lookup (roomAssetsMap st') k
            = (if k \<in> (\<lambda>r. propKey (roomId r)) ` set rs
               then Some ((case lookup (roomAssetsMap st) k of None \<Rightarrow> [] | Some ids \<Rightarrow> ids)
                          @ replicate (length (filter (\<lambda>r. propKey (roomId r) = k) rs)) assetKey)
               else lookup (roomAssetsMap st) k))
     \<and> card {k. lookup (roomAssetsMap st') k \<noteq> lookup (roomAssetsMap st) k}
         = card ((\<lambda>r. propKey (roomId r)) ` set rs)"
proof -
  let ?m = "roomAssetsMap st"
  let ?key = "\<lambda>r. propKey (roomId r)"
  let ?st' = "st\<lparr>assets := put (assets st) assetKey asset,
                 roomAssetsMap := linkRooms assetKey rs ?m,
                 modelRooms := modelRooms st @ rs\<rparr>"
  have run: "processAsset u m st asset = Inr ?st'"
    by (rule processAsset_ok [OF assms])
  have flt: "filter (\<lambda>p. fst p = k) (map (\<lambda>r. (?key r, assetKey)) rs)
               = map (\<lambda>r. (?key r, assetKey)) (filter (\<lambda>r. ?key r = k) rs)" for k
    by (simp add: filter_map o_def)
  have look: "lookup (linkRooms assetKey rs ?m) k
            = (if k \<in> ?key ` set rs
               then Some ((case lookup ?m k of None \<Rightarrow> [] | Some ids \<Rightarrow> ids)
                          @ replicate (length (filter (\<lambda>r. ?key r = k) rs)) assetKey)
               else lookup ?m k)" for k
  proof (cases "k \<in> ?key ` set rs")
    case True
    then have "filter (\<lambda>r. ?key r = k) rs \<noteq> []"
      by (auto simp: filter_empty_conv)
    with True show ?thesis
      by (simp add: linkRooms_pushAll lookup_pushAll flt o_def map_replicate_const)
  next
    case False
    then have "filter (\<lambda>r. ?key r = k) rs = []"
      by (auto simp: filter_empty_conv)
    with False show ?thesis
      by (simp add: linkRooms_pushAll lookup_pushAll flt)
  qed
  have changed: "{k. lookup (linkRooms assetKey rs ?m) k \<noteq> lookup ?m k} = ?key ` set rs"
  proof (intro set_eqI iffI)
    fix k assume "k \<in> {k. lookup (linkRooms assetKey rs ?m) k \<noteq> lookup ?m k}"
    then show "k \<in> ?key ` set rs"
      by (simp add: look split: if_splits)
  next
    fix k assume k: "k \<in> ?key ` set rs"
    then have "filter (\<lambda>r. ?key r = k) rs \<noteq> []"
      by (auto simp: filter_empty_conv)
    then have "length (filter (\<lambda>r. ?key r = k) rs) \<noteq> 0"
      by simp
    with k show "k \<in> {k. lookup (linkRooms assetKey rs ?m) k \<noteq> lookup ?m k}"
      by (cases "lookup ?m k") (simp_all add: look)
  qed
  from run look changed show ?thesis
    by (intro exI [of _ ?st']) simp
qed

theorem C3_witness:
  "findRoomRefs demoUtils ''urn:adsk.dtm:A'' pump
     = Inr [\<lparr>modelId = ''urn:adsk.dtm:A'', roomId = Some ''FR''\<rparr>,
            \<lparr>modelId = ''urn:adsk.dtm:A'', roomId = Some ''FS''\<rparr>]
   \<and> (\<exists>st'. processAsset demoUtils ''urn:adsk.dtm:A'' initial pump = Inr st'
         \<and> lookup (roomAssetsMap st') ''FR'' = Some [''Fp'']
         \<and> lookup (roomAssetsMap st') ''FS'' = Some [''Fp'']
         \<and> lookup (roomAssetsMap st') ''FT'' = None
         \<and> card {k. lookup (roomAssetsMap st') k \<noteq> lookup (roomAssetsMap initial) k} = 2)"
proof -
  let ?rs = "[\<lparr>modelId = ''urn:adsk.dtm:A'', roomId = Some ''FR''\<rparr>,
              \<lparr>modelId = ''urn:adsk.dtm:A'', roomId = Some ''FS''\<rparr>]"
  have refs: "findRoomRefs demoUtils ''urn:adsk.dtm:A'' pump = Inr ?rs"
    by code_simp
  have key: "toFullKey (Encoding demoUtils) (lookup pump (Key (QC demoUtils))) = Inr ''Fp''"
    by (simp add: pump_def lookup_def demoUtils_def demoEncoding_def)
  have keys: "(\<lambda>r. propKey (roomId r)) ` set ?rs = {''FR'', ''FS''}"
    by (simp add: propKey_def)
  from C3_asset_is_pushed_to_each_room_key [OF key refs, of initial]
  obtain st' where run: "processAsset demoUtils ''urn:adsk.dtm:A'' initial pump = Inr st'"
    and look: "\<And>k. lookup (roomAssetsMap st') k
            = (if k \<in> {''FR'', ''FS''}
               then Some ((case lookup (roomAssetsMap initial) k of None \<Rightarrow> [] | Some ids \<Rightarrow> ids)
                          @ replicate (length (filter (\<lambda>r. propKey (roomId r) = k) ?rs)) ''Fp'')
               else lookup (roomAssetsMap initial) k)"
    and card: "card {k. lookup (roomAssetsMap st') k \<noteq> lookup (roomAssetsMap initial) k}
         = card {''FR'', ''FS''}"
    unfolding keys by blast
  have "lookup (roomAssetsMap st') ''FR'' = Some [''Fp'']"
    and "lookup (roomAssetsMap st') ''FS'' = Some [''Fp'']"
    and "lookup (roomAssetsMap st') ''FT'' = None"
    by (simp_all add: look initial_def lookup_Nil propKey_def)
  with run card refs show ?thesis
    by (intro conjI exI [of _ st']) simp_all
qed

text \<open>
  C4. For every model that owns a pending room (a model id of \<open>modelRooms\<close>), the requests
  of the run hold exactly one room fetch to that model: a keyed request with the
  families standard and refs. Its keys are the room ids pending for the model, each
  once, in the order of their first reference. The only other keyed request the model
  may get is the level fetch that follows it.
\<close>

theorem C4_one_room_fetch_per_pending_model:
  assumes "main u fetch fid fac = Inr st" and "m \<in> modelId ` set (modelRooms st)"
  shows "filter (\<lambda>req. urn req = m \<and> keys (inputs req) \<noteq> None
                      \<and> families (inputs req) = [Standard (ColumnFamilies u), Refs (ColumnFamilies u)])
           (requests st)
         = [\<lparr>urn = m,
             inputs = \<lparr>families = [Standard (ColumnFamilies u), Refs (ColumnFamilies u)],
                        includeHistory = False, skipArrays = True,
                        keys = Some (newSet (map roomId (filter (\<lambda>i. modelId i = m) (modelRooms st))))\<rparr>\<rparr>]
       \<and> distinct (newSet (map roomId (filter (\<lambda>i. modelId i = m) (modelRooms st))))
       \<and> set (newSet (map roomId (filter (\<lambda>i. modelId i = m) (modelRooms st))))
           = roomId ` {i \<in> set (modelRooms st). modelId i = m}
       \<and> length (filter (\<lambda>req. urn req = m \<and> keys (inputs req) \<noteq> None) (requests st)) \<le> 2"
proof -
  let ?fams = "[Standard (ColumnFamilies u), Refs (ColumnFamilies u)]"
  let ?all = "filter (\<lambda>req. urn req = m \<and> keys (inputs req) \<noteq> None) (requests st)"
  have all: "?all = roomRequest u fetch (modelRooms st) m # levelRequests u fetch (modelRooms st) m"
    by (rule pass2_requests_of_model [OF assms])
  have "filter (\<lambda>req. urn req = m \<and> keys (inputs req) \<noteq> None \<and> families (inputs req) = ?fams) (requests st)
          = filter (\<lambda>req. families (inputs req) = ?fams) ?all"
    by (simp add: conj_ac cong: conj_cong)
  also have "\<dots> = [roomRequest u fetch (modelRooms st) m]"
    unfolding all by (simp add: roomRequest_eq levelRequests_eq roomFamilies_def)
  finally have one: "filter (\<lambda>req. urn req = m \<and> keys (inputs req) \<noteq> None \<and> families (inputs req) = ?fams) (requests st)
          = [roomRequest u fetch (modelRooms st) m]" .
  have two: "length ?all \<le> 2"
    unfolding all by (simp add: levelRequests_eq)
  from one two show ?thesis
    by (simp add: roomRequest_eq roomFamilies_def roomIdsOf_def distinct_newSet set_newSet)
qed

theorem C4_witness:
  "main demoUtils demoFetch demoId demoFacility = Inr demoState
   \<and> filter (\<lambda>req. urn req = ''urn:adsk.dtm:B'' \<and> keys (inputs req) \<noteq> None
                      \<and> families (inputs req) = [''n'', ''l'']) (requests demoState)
       = [\<lparr>urn = ''urn:adsk.dtm:B'',
           inputs = \<lparr>families = [''n'', ''l''], includeHistory = False, skipArrays = True,
                      keys = Some [Some ''FT'', Some ''FR'']\<rparr>\<rparr>]"
proof -
  have m: "''urn:adsk.dtm:B'' \<in> modelId ` set (modelRooms demoState)"
    by (simp add: demoState_def)
  have ks: "newSet (map roomId (filter (\<lambda>i. modelId i = ''urn:adsk.dtm:B'') (modelRooms demoState)))
              = [Some ''FT'', Some ''FR'']"
    by (simp add: demoState_def newSet_def add_def)
  from C4_one_room_fetch_per_pending_model [OF demo_main m] demo_main show ?thesis
    unfolding ks by (simp add: demoUtils_def)
qed

text \<open>
  C5, as stated, fails: the maps are keyed by the room id alone. On the worked facility
  the asset \<open>v\<close> of model \<open>B\<close> refers to the room \<open>R\<close> of \<open>B\<close>; the room fetch of \<open>B\<close> asks for
  it and gets no element for it. Model \<open>A\<close> has a room of the same key, which its own
  fetch returns: the key is in \<open>rooms\<close> and in \<open>roomLevelMap\<close>, and \<open>getRoomsByLevel\<close> yields
  it.
\<close>

theorem C5_counterexample:
  "main demoUtils demoFetch demoId demoFacility = Inr demoState
   \<and> findRoomRefs demoUtils ''urn:adsk.dtm:B'' valve
       = Inr [\<lparr>modelId = ''urn:adsk.dtm:B'', roomId = Some ''FR''\<rparr>]
   \<and> requests demoState ! 4
       = \<lparr>urn = ''urn:adsk.dtm:B'',
          inputs = \<lparr>families = [''n'', ''l''], includeHistory = False, skipArrays = True,
                     keys = Some [Some ''FT'', Some ''FR'']\<rparr>\<rparr>
   \<and> fetchedRooms demoUtils demoFetch (modelRooms demoState) ''urn:adsk.dtm:B'' = [roomT]
   \<and> toFullKey (Encoding demoUtils) (lookup roomT (Key (QC demoUtils))) = Inr ''FT''
   \<and> lookup (rooms demoState) ''FR'' = Some roomR
   \<and> lookup (roomLevelMap demoState) ''FR'' = Some ''FL''
   \<and> getRoomsByLevel demoState ''FL'' = [(''FR'', Some roomR)]"
proof -
  have "findRoomRefs demoUtils ''urn:adsk.dtm:B'' valve
       = Inr [\<lparr>modelId = ''urn:adsk.dtm:B'', roomId = Some ''FR''\<rparr>]"
    by code_simp
  moreover have "toFullKey (Encoding demoUtils) (lookup roomT (Key (QC demoUtils))) = Inr ''FT''"
    by (simp add: roomT_def lookup_def demoUtils_def demoEncoding_def)
  moreover have "requests demoState ! 4
       = \<lparr>urn = ''urn:adsk.dtm:B'',
          inputs = \<lparr>families = [''n'', ''l''], includeHistory = False, skipArrays = True,
                     keys = Some [Some ''FT'', Some ''FR'']\<rparr>\<rparr>"
    and "lookup (rooms demoState) ''FR'' = Some roomR"
    and "lookup (roomLevelMap demoState) ''FR'' = Some ''FL''"
    and "getRoomsByLevel demoState ''FL'' = [(''FR'', Some roomR)]"
    by (simp_all add: demoState_def lookup_def getRoomsByLevel_def)
  ultimately show ?thesis
    using demo_main demo_fetchedRooms(2) by simp
qed

text \<open>
  C5, amended. If no room fetch of the run, of any model, returns an element whose
  full key is the key of a pending room, then the key is in neither \<open>rooms\<close> nor
  \<open>roomLevelMap\<close>, it still has a bucket with at least one asset in \<open>roomAssetsMap\<close>,
  \<open>getRoomsByLevel\<close> yields it for no level key, so that STEP 7 never asks for it, and
  \<open>getAssetsByRoom\<close> yields its assets. A room fetch that returns fewer elements than
  asked for raises nothing: the whole of \<open>main\<close>, STEP 7 included, ends without an error
  when the codec does not throw on defined inputs, every element the service returns
  has a key, and every room listed under a fetched level has a bucket. After STEP 6
  that last condition is also necessary: STEP 7 throws a \<open>TypeError\<close> exactly when a room
  it lists has no bucket (\<open>stray_main\<close> is such a run).
\<close>

theorem C5_dangling_room_reference:
  "((\<forall>s. \<exists>k. toFullKey (Encoding u) (Some s) = Inr k)
     \<and> (\<forall>s. \<exists>ks. fromShortKeyArray (Encoding u) s = Inr ks)
     \<and> (\<forall>x. \<exists>p. fromXrefKeyArray (Encoding u) x = Inr p)
     \<and> (\<forall>req. \<forall>e \<in> set (fetch req). lookup e (Key (QC u)) \<noteq> None)
     \<and> (\<forall>st. main u fetch fid fac = Inr st \<longrightarrow>
           (\<forall>levelKey \<in> fst ` set (levels st).
              \<forall>roomKey \<in> fst ` set (getRoomsByLevel st levelKey).
                lookup (roomAssetsMap st) roomKey \<noteq> None))
    \<longrightarrow> (\<exists>st out. mainWithOutput u fetch fid fac = Inr (st, out)))
   \<and> (main u fetch fid fac = Inr st \<longrightarrow>
        ((\<exists>out. mainWithOutput u fetch fid fac = Inr (st, out))
          \<longleftrightarrow> (\<forall>levelKey \<in> fst ` set (levels st).
              \<forall>roomKey \<in> fst ` set (getRoomsByLevel st levelKey).
                lookup (roomAssetsMap st) roomKey \<noteq> None)))
   \<and> (main u fetch fid fac = Inr st \<and> r \<in> set (modelRooms st)
       \<and> (\<forall>m \<in> modelId ` set (modelRooms st).
            \<forall>room \<in> set (fetchedRooms u fetch (modelRooms st) m).
              toFullKey (Encoding u) (lookup room (Key (QC u))) \<noteq> Inr (propKey (roomId r)))
      \<longrightarrow> lookup (rooms st) (propKey (roomId r)) = None
        \<and> lookup (roomLevelMap st) (propKey (roomId r)) = None
        \<and> (\<exists>ids. lookup (roomAssetsMap st) (propKey (roomId r)) = Some ids \<and> ids \<noteq> [])
        \<and> (\<forall>levelKey. propKey (roomId r) \<notin> fst ` set (getRoomsByLevel st levelKey))
        \<and> (\<exists>ys. getAssetsByRoom st (propKey (roomId r)) = Inr ys \<and> ys \<noteq> []))"
proof (intro conjI impI)
  assume H: "(\<forall>s. \<exists>k. toFullKey (Encoding u) (Some s) = Inr k)
     \<and> (\<forall>s. \<exists>ks. fromShortKeyArray (Encoding u) s = Inr ks)
     \<and> (\<forall>x. \<exists>p. fromXrefKeyArray (Encoding u) x = Inr p)
     \<and> (\<forall>req. \<forall>e \<in> set (fetch req). lookup e (Key (QC u)) \<noteq> None)
     \<and> (\<forall>st. main u fetch fid fac = Inr st \<longrightarrow>
           (\<forall>levelKey \<in> fst ` set (levels st).
              \<forall>roomKey \<in> fst ` set (getRoomsByLevel st levelKey).
                lookup (roomAssetsMap st) roomKey \<noteq> None))"
  then obtain st0 where st0: "main u fetch fid fac = Inr st0"
    using main_total [of u fetch fid fac] by blast
  with H have "(\<forall>levelKey \<in> fst ` set (levels st0).
              \<forall>roomKey \<in> fst ` set (getRoomsByLevel st0 levelKey).
                lookup (roomAssetsMap st0) roomKey \<noteq> None)"
    by blast
  then obtain out where "listStructure u st0 = Inr out"
    unfolding main_listStructure_iff [OF st0, symmetric] by blast
  with st0 show "\<exists>st out. mainWithOutput u fetch fid fac = Inr (st, out)"
    unfolding mainWithOutput_iff by blast
next
  assume main: "main u fetch fid fac = Inr st"
  show "(\<exists>out. mainWithOutput u fetch fid fac = Inr (st, out))
          \<longleftrightarrow> (\<forall>levelKey \<in> fst ` set (levels st).
              \<forall>roomKey \<in> fst ` set (getRoomsByLevel st levelKey).
                lookup (roomAssetsMap st) roomKey \<noteq> None)"
    unfolding mainWithOutput_iff main_listStructure_iff [OF main, symmetric]
    using main by simp
next
  let ?k = "propKey (roomId r)"
  assume H: "main u fetch fid fac = Inr st \<and> r \<in> set (modelRooms st)
       \<and> (\<forall>m \<in> modelId ` set (modelRooms st).
            \<forall>room \<in> set (fetchedRooms u fetch (modelRooms st) m).
              toFullKey (Encoding u) (lookup room (Key (QC u))) \<noteq> Inr (propKey (roomId r)))"
  then have main: "main u fetch fid fac = Inr st" and r: "r \<in> set (modelRooms st)"
    and dangling: "\<And>m room. m \<in> modelId ` set (modelRooms st)
            \<Longrightarrow> room \<in> set (fetchedRooms u fetch (modelRooms st) m)
            \<Longrightarrow> toFullKey (Encoding u) (lookup room (Key (QC u))) \<noteq> Inr ?k"
    by blast+
  have norooms: "?k \<notin> fst ` set (rooms st)"
  proof
    assume "?k \<in> fst ` set (rooms st)"
    then obtain room where "(?k, room) \<in> set (rooms st)" by auto
    from main_rooms_mem [OF main this] dangling show False by blast
  qed
  then show 1: "lookup (rooms st) ?k = None"
    by (simp add: lookup_None_iff)
  have "?k \<notin> fst ` set (roomLevelMap st)"
  proof
    assume "?k \<in> fst ` set (roomLevelMap st)"
    then obtain lk where "(?k, lk) \<in> set (roomLevelMap st)" by auto
    from main_roomLevelMap_mem [OF main this] dangling show False by blast
  qed
  then show "lookup (roomLevelMap st) ?k = None"
    by (simp add: lookup_None_iff)
  from main_bucket_of_pending [OF main r]
  show 3: "\<exists>ids. lookup (roomAssetsMap st) ?k = Some ids \<and> ids \<noteq> []" .
  from norooms getRoomsByLevel_keys [of st]
  show "\<forall>levelKey. ?k \<notin> fst ` set (getRoomsByLevel st levelKey)"
    by blast
  from 3 show "\<exists>ys. getAssetsByRoom st ?k = Inr ys \<and> ys \<noteq> []"
    by (auto simp: getAssetsByRoom_def)
qed

theorem C5_witness:
  "(\<exists>st out. mainWithOutput demoUtils demoFetch demoId demoFacility = Inr (st, out))
   \<and> (\<exists>out. mainWithOutput demoUtils demoFetch demoId demoFacility = Inr (demoState, out))
   \<and> main demoUtils demoFetch demoId demoFacility = Inr demoState
   \<and> \<lparr>modelId = ''urn:adsk.dtm:A'', roomId = Some ''FS''\<rparr> \<in> set (modelRooms demoState)
   \<and> fetchedRooms demoUtils demoFetch (modelRooms demoState) ''urn:adsk.dtm:A'' = [roomR]
   \<and> lookup (rooms demoState) ''FS'' = None
   \<and> lookup (roomLevelMap demoState) ''FS'' = None
   \<and> lookup (roomAssetsMap demoState) ''FS'' = Some [''Fp'']
   \<and> ''FS'' \<notin> fst ` set (getRoomsByLevel demoState ''FL'')
   \<and> getAssetsByRoom demoState ''FS'' = Inr [(''Fp'', Some pump)]"
proof -
  let ?r = "\<lparr>modelId = ''urn:adsk.dtm:A'', roomId = Some ''FS''\<rparr>"
  have r: "?r \<in> set (modelRooms demoState)"
    by (simp add: demoState_def)
  have ms: "modelId ` set (modelRooms demoState) = {''urn:adsk.dtm:A'', ''urn:adsk.dtm:B''}"
    by (auto simp: demoState_def)
  have kR: "toFullKey (Encoding demoUtils) (lookup roomR (Key (QC demoUtils))) = Inr ''FR''"
    and kT: "toFullKey (Encoding demoUtils) (lookup roomT (Key (QC demoUtils))) = Inr ''FT''"
    by (simp_all add: roomR_def roomT_def lookup_def demoUtils_def demoEncoding_def)
  have dangling: "\<forall>m \<in> modelId ` set (modelRooms demoState).
            \<forall>room \<in> set (fetchedRooms demoUtils demoFetch (modelRooms demoState) m).
              toFullKey (Encoding demoUtils) (lookup room (Key (QC demoUtils)))
                \<noteq> Inr (propKey (roomId ?r))"
    unfolding ms
    by (simp add: demo_fetchedRooms kR kT propKey_def)
  from C5_dangling_room_reference [of demoUtils demoFetch demoId demoFacility demoState ?r,
         THEN conjunct2, THEN conjunct2, rule_format,
         OF conjI [OF demo_main conjI [OF r dangling]]]
  have "lookup (rooms demoState) ''FS'' = None"
    and "lookup (roomLevelMap demoState) ''FS'' = None"
    and "''FS'' \<notin> fst ` set (getRoomsByLevel demoState ''FL'')"
    by (simp_all add: propKey_def)
  moreover have "lookup (roomAssetsMap demoState) ''FS'' = Some [''Fp'']"
    and "getAssetsByRoom demoState ''FS'' = Inr [(''Fp'', Some pump)]"
    by (simp_all add: demoState_def lookup_def getAssetsByRoom_def)
  moreover have cond: "\<forall>levelKey \<in> fst ` set (levels demoState).
              \<forall>roomKey \<in> fst ` set (getRoomsByLevel demoState levelKey).
                lookup (roomAssetsMap demoState) roomKey \<noteq> None"
    by (simp add: demoState_def getRoomsByLevel_def lookup_def)
  moreover have "\<exists>st out. mainWithOutput demoUtils demoFetch demoId demoFacility = Inr (st, out)"
  proof -
    have 1: "\<forall>s. \<exists>k. toFullKey (Encoding demoUtils) (Some s) = Inr k"
      and 2: "\<forall>s. \<exists>ks. fromShortKeyArray (Encoding demoUtils) s = Inr ks"
      by (simp_all add: demoUtils_def demoEncoding_def)
    have 3: "\<forall>x. \<exists>p. fromXrefKeyArray (Encoding demoUtils) x = Inr p"
      by (simp add: demoUtils_def demoEncoding_def split: option.split)
    have 4: "\<forall>req. \<forall>e \<in> set (demoFetch req). lookup e (Key (QC demoUtils)) \<noteq> None"
      by (simp add: demoFetch_def demoUtils_def lookup_def pump_def fan_def spare_def wall_def
            valve_def sensor_def roomR_def roomT_def levelL_def)
    have 5: "\<forall>st. main demoUtils demoFetch demoId demoFacility = Inr st \<longrightarrow>
            (\<forall>levelKey \<in> fst ` set (levels st).
              \<forall>roomKey \<in> fst ` set (getRoomsByLevel st levelKey).
                lookup (roomAssetsMap st) roomKey \<noteq> None)"
      using cond by (simp add: demo_main)
    from C5_dangling_room_reference [of demoUtils demoFetch demoId demoFacility demoState ?r,
           THEN conjunct1, rule_format,
           OF conjI [OF 1 conjI [OF 2 conjI [OF 3 conjI [OF 4 5]]]]]
    show ?thesis .
  qed
  moreover have "\<exists>out. mainWithOutput demoUtils demoFetch demoId demoFacility = Inr (demoState, out)"
    using C5_dangling_room_reference [of demoUtils demoFetch demoId demoFacility demoState ?r,
           THEN conjunct2, THEN conjunct1, rule_format, OF demo_main] cond
    by blast
  ultimately show ?thesis
    using demo_main r demo_fetchedRooms(1) by simp
qed

text \<open>
  C6, as stated, fails: STEP 4 has no check of the two lengths and reports nothing.
  On the worked codec the blob \<open>BC|K\<close> decodes into two model ids and one element key,
  and the asset gets two references, the second with the room id \<open>undefined\<close>.
\<close>

theorem C6_counterexample:
  "fromXrefKeyArray (Encoding demoUtils) (lookup meter (XRooms (QC demoUtils)))
     = Inr ([''B'', ''C''], [''FK''])
   \<and> findRoomRefs demoUtils ''urn:adsk.dtm:A'' meter
     = Inr [\<lparr>modelId = ''urn:adsk.dtm:B'', roomId = Some ''FK''\<rparr>,
            \<lparr>modelId = ''urn:adsk.dtm:C'', roomId = None\<rparr>]"
  by code_simp

text \<open>
  C6, amended. For a cross-model reference that decodes into the arrays \<open>modelIds\<close> and
  \<open>elementKeys\<close>, of any lengths, STEP 4 makes one reference for each model id: the
  reference at \<open>i\<close> has the model \<open>urn:adsk.dtm:\<close> followed by \<open>modelIds[i]\<close> and the room
  id \<open>elementKeys[i]\<close>, which is \<open>undefined\<close> from the length of \<open>elementKeys\<close> on; element
  keys beyond the model ids are dropped. No error is raised: the asset is processed as
  any other, all its references are pushed to \<open>modelRooms\<close>, and when \<open>elementKeys\<close> is
  the shorter array the asset is in the bucket \<open>"undefined"\<close> of \<open>roomAssetsMap\<close>.
\<close>

theorem C6_xref_pairs_follow_model_ids:
  assumes "\<not> truthy (lookup asset (Rooms (QC u)))"
    and "fromXrefKeyArray (Encoding u) (lookup asset (XRooms (QC u))) = Inr (modelIds, elementKeys)"
    and "toFullKey (Encoding u) (lookup asset (Key (QC u))) = Inr assetKey"
  shows "\<exists>rs. findRoomRefs u m asset = Inr rs \<and> length rs = length modelIds
          \<and> (\<forall>i<length modelIds.
                rs ! i = \<lparr>modelId = ''urn:adsk.dtm:'' @ modelIds ! i,
                          roomId = (if i < length elementKeys then Some (elementKeys ! i) else None)\<rparr>)
          \<and> processAsset u m st asset
              = Inr (st\<lparr>assets := put (assets st) assetKey asset,
                        roomAssetsMap := linkRooms assetKey rs (roomAssetsMap st),
                        modelRooms := modelRooms st @ rs\<rparr>)
          \<and> (length elementKeys < length modelIds \<longrightarrow>
               (\<exists>ids. lookup (linkRooms assetKey rs (roomAssetsMap st)) ''undefined'' = Some ids
                      \<and> assetKey \<in> set ids))"
proof -
  let ?rs = "map (\<lambda>i. \<lparr>modelId = ''urn:adsk.dtm:'' @ modelIds ! i, roomId = index elementKeys i\<rparr>)
               [0 ..< length modelIds]"
  have refs: "findRoomRefs u m asset = Inr ?rs"
    by (rule findRoomRefs_xref [OF assms(1,2)])
  have nth: "\<forall>i<length modelIds.
                ?rs ! i = \<lparr>modelId = ''urn:adsk.dtm:'' @ modelIds ! i,
                          roomId = (if i < length elementKeys then Some (elementKeys ! i) else None)\<rparr>"
    by (simp add: index_def)
  have undef: "\<exists>ids. lookup (linkRooms assetKey ?rs (roomAssetsMap st)) ''undefined'' = Some ids
                      \<and> assetKey \<in> set ids"
    if short: "length elementKeys < length modelIds"
  proof -
    let ?r = "\<lparr>modelId = ''urn:adsk.dtm:'' @ modelIds ! length elementKeys, roomId = None\<rparr>"
    from short have "?r \<in> set ?rs"
      by (auto simp: index_def image_iff intro!: bexI [of _ "length elementKeys"])
    then have "(''undefined'', assetKey) \<in> set (map (\<lambda>r. (propKey (roomId r), assetKey)) ?rs)"
      by (force simp: propKey_def)
    then have mem: "(''undefined'', assetKey) \<in> set (filter (\<lambda>p. fst p = ''undefined'')
                 (map (\<lambda>r. (propKey (roomId r), assetKey)) ?rs))"
      by simp
    then have ne: "filter (\<lambda>p. fst p = ''undefined'') (map (\<lambda>r. (propKey (roomId r), assetKey)) ?rs) \<noteq> []"
      by (metis empty_iff empty_set)
    from mem have "assetKey \<in> set (map snd (filter (\<lambda>p. fst p = ''undefined'')
                 (map (\<lambda>r. (propKey (roomId r), assetKey)) ?rs)))"
      unfolding set_map by (rule image_eqI [rotated]) simp
    with ne show ?thesis
      by (simp add: linkRooms_pushAll lookup_pushAll)
  qed
  from refs nth undef processAsset_ok [OF assms(3) refs, of st] show ?thesis
    by (intro exI [of _ ?rs]) simp
qed

theorem C6_witness:
  "findRoomRefs demoUtils ''urn:adsk.dtm:A'' meter
     = Inr [\<lparr>modelId = ''urn:adsk.dtm:B'', roomId = Some ''FK''\<rparr>,
            \<lparr>modelId = ''urn:adsk.dtm:C'', roomId = None\<rparr>]
   \<and> processAsset demoUtils ''urn:adsk.dtm:A'' initial meter
     = Inr (initial\<lparr>assets := [(''Fm'', meter)],
                   roomAssetsMap := [(''FK'', [''Fm'']), (''undefined'', [''Fm''])],
                   modelRooms := [\<lparr>modelId = ''urn:adsk.dtm:B'', roomId = Some ''FK''\<rparr>,
                                  \<lparr>modelId = ''urn:adsk.dtm:C'', roomId = None\<rparr>]\<rparr>)"
proof -
  have 1: "\<not> truthy (lookup meter (Rooms (QC demoUtils)))"
    by (simp add: truthy_def lookup_def meter_def demoUtils_def)
  have 2: "fromXrefKeyArray (Encoding demoUtils) (lookup meter (XRooms (QC demoUtils)))
            = Inr ([''B'', ''C''], [''FK''])"
    by (simp add: lookup_def meter_def demoUtils_def demoEncoding_def)
  have 3: "toFullKey (Encoding demoUtils) (lookup meter (Key (QC demoUtils))) = Inr ''Fm''"
    by (simp add: lookup_def meter_def demoUtils_def demoEncoding_def)
  from C6_xref_pairs_follow_model_ids [OF 1 2 3, of "''urn:adsk.dtm:A''" initial]
  obtain rs where rs: "findRoomRefs demoUtils ''urn:adsk.dtm:A'' meter = Inr rs"
    and len: "length rs = 2"
    and nth: "\<forall>i<2. rs ! i = \<lparr>modelId = ''urn:adsk.dtm:'' @ [''B'', ''C''] ! i,
                          roomId = (if i < 1 then Some ([''FK''] ! i) else None)\<rparr>"
    and pa: "processAsset demoUtils ''urn:adsk.dtm:A'' initial meter
              = Inr (initial\<lparr>assets := put (assets initial) ''Fm'' meter,
                        roomAssetsMap := linkRooms ''Fm'' rs (roomAssetsMap initial),
                        modelRooms := modelRooms initial @ rs\<rparr>)"
    by auto
  from nth have "rs ! 0 = \<lparr>modelId = ''urn:adsk.dtm:B'', roomId = Some ''FK''\<rparr>"
    and "rs ! 1 = \<lparr>modelId = ''urn:adsk.dtm:C'', roomId = None\<rparr>"
    by simp_all
  with len have rs_eq: "rs = [\<lparr>modelId = ''urn:adsk.dtm:B'', roomId = Some ''FK''\<rparr>,
            \<lparr>modelId = ''urn:adsk.dtm:C'', roomId = None\<rparr>]"
    by (cases rs; cases "tl rs"; cases "tl (tl rs)") auto
  from pa rs show ?thesis
    unfolding rs_eq
    by (simp add: initial_def linkRooms_def linkRoom_def propKey_def lookup_def)
qed

text \<open>
  C7, as stated, fails: STEP 6 reads the level of a room from \<open>QC.Level\<close> alone and sends
  the level fetch to the model the room came from. On the worked facility the room \<open>T\<close>
  of model \<open>B\<close> carries cross-model blobs that decode to the element \<open>N\<close> of model \<open>C\<close>, under
  \<open>QC.XRooms\<close> and under \<open>x:l\<close>, and no \<open>QC.Level\<close>: it gets no level, and no request
  goes to model \<open>C\<close>.
\<close>

theorem C7_counterexample:
  "main demoUtils demoFetch demoId demoFacility = Inr demoState
   \<and> lookup (rooms demoState) ''FT'' = Some roomT
   \<and> lookup roomT ''x:l'' = Some ''C|N''
   \<and> lookup roomT (XRooms (QC demoUtils)) = Some ''C|N''
   \<and> fromXrefKeyArray (Encoding demoUtils) (Some ''C|N'') = Inr ([''C''], [''FN''])
   \<and> lookup (roomLevelMap demoState) ''FT'' = None
   \<and> map urn (requests demoState)
       = [''urn:adsk.dtm:A'', ''urn:adsk.dtm:B'', ''urn:adsk.dtm:A'', ''urn:adsk.dtm:A'',
          ''urn:adsk.dtm:B'']"
  using demo_main
  by (simp add: demoState_def lookup_def roomT_def demoUtils_def demoEncoding_def)

text \<open>
  C7, amended. The level reference of a fetched room is its property \<open>QC.Level\<close>, when
  that is a non-empty string: at most one per room, and no cross-model field is read
  for it. The level ids of the rooms a model returned are collected in a set of that
  model, and when the set is not empty they are fetched, with one request (family
  standard), from that same model, the one the rooms were fetched from. No keyed
  request goes to a model that owns no pending room, and every entry of \<open>roomLevelMap\<close>
  maps the full key of a fetched room to the full key of its \<open>QC.Level\<close>.
\<close>

theorem C7_levels_are_fetched_from_the_room_model:
  assumes "main u fetch fid fac = Inr st"
  shows "(\<forall>req \<in> set (requests st). keys (inputs req) \<noteq> None \<longrightarrow> urn req \<in> modelId ` set (modelRooms st))
    \<and> (\<forall>m \<in> modelId ` set (modelRooms st).
         filter (\<lambda>req. urn req = m \<and> keys (inputs req) \<noteq> None
                       \<and> families (inputs req) = [Standard (ColumnFamilies u)]) (requests st)
           = (let levelIds = newSet (concat (map (\<lambda>room. if truthy (lookup room (Level (QC u)))
                                                         then [the (lookup room (Level (QC u)))] else [])
                                          (fetchedRooms u fetch (modelRooms st) m)))
              in if levelIds = [] then []
                 else [\<lparr>urn = m,
                        inputs = \<lparr>families = [Standard (ColumnFamilies u)], includeHistory = False,
                                   skipArrays = True, keys = Some (map Some levelIds)\<rparr>\<rparr>]))
    \<and> (\<forall>(roomKey, levelKey) \<in> set (roomLevelMap st).
          \<exists>m \<in> modelId ` set (modelRooms st). \<exists>room \<in> set (fetchedRooms u fetch (modelRooms st) m).
             truthy (lookup room (Level (QC u)))
             \<and> toFullKey (Encoding u) (lookup room (Key (QC u))) = Inr roomKey
             \<and> toFullKey (Encoding u) (lookup room (Level (QC u))) = Inr levelKey)"
proof (intro conjI ballI impI)
  fix req assume "req \<in> set (requests st)" and keyed: "keys (inputs req) \<noteq> None"
  with main_requests [OF assms]
  consider (scan) m where "req = taggedRequest u fetch m"
    | (pass2) m where "m \<in> set (newSet (map modelId (modelRooms st)))"
        "req \<in> set (roomRequest u fetch (modelRooms st) m # levelRequests u fetch (modelRooms st) m)"
    by auto
  then show "urn req \<in> modelId ` set (modelRooms st)"
  proof cases
    case scan
    with keyed show ?thesis by (simp add: keys_taggedRequest)
  next
    case pass2
    from pass2(2) have "urn req = m"
      by (auto simp: roomRequest_eq levelRequests_eq split: if_splits)
    with pass2(1) show ?thesis by (simp add: set_newSet)
  qed
next
  fix m assume m: "m \<in> modelId ` set (modelRooms st)"
  let ?fams = "[Standard (ColumnFamilies u)]"
  let ?all = "filter (\<lambda>req. urn req = m \<and> keys (inputs req) \<noteq> None) (requests st)"
  have all: "?all = roomRequest u fetch (modelRooms st) m # levelRequests u fetch (modelRooms st) m"
    by (rule pass2_requests_of_model [OF assms m])
  have "filter (\<lambda>req. urn req = m \<and> keys (inputs req) \<noteq> None \<and> families (inputs req) = ?fams) (requests st)
          = filter (\<lambda>req. families (inputs req) = ?fams) ?all"
    by (simp add: conj_ac cong: conj_cong)
  also have "\<dots> = levelRequests u fetch (modelRooms st) m"
    unfolding all by (simp add: roomRequest_eq levelRequests_eq roomFamilies_def)
  finally have lv: "filter (\<lambda>req. urn req = m \<and> keys (inputs req) \<noteq> None
                       \<and> families (inputs req) = ?fams) (requests st)
                     = levelRequests u fetch (modelRooms st) m" .
  have lr: "levelRef u = (\<lambda>room. if truthy (lookup room (Level (QC u)))
                                   then [the (lookup room (Level (QC u)))] else [])"
    by (rule ext) (simp add: levelRef_def)
  show "filter (\<lambda>req. urn req = m \<and> keys (inputs req) \<noteq> None
                       \<and> families (inputs req) = [Standard (ColumnFamilies u)]) (requests st)
           = (let levelIds = newSet (concat (map (\<lambda>room. if truthy (lookup room (Level (QC u)))
                                                         then [the (lookup room (Level (QC u)))] else [])
                                          (fetchedRooms u fetch (modelRooms st) m)))
              in if levelIds = [] then []
                 else [\<lparr>urn = m,
                        inputs = \<lparr>families = [Standard (ColumnFamilies u)], includeHistory = False,
                                   skipArrays = True, keys = Some (map Some levelIds)\<rparr>\<rparr>])"
    unfolding lv by (simp add: levelRequests_eq levelIdsOf_def lr Let_def)
next
  fix p assume p: "p \<in> set (roomLevelMap st)"
  obtain k lk where pk: "p = (k, lk)" by (cases p)
  from p show "case p of (roomKey, levelKey) \<Rightarrow>
          \<exists>m \<in> modelId ` set (modelRooms st). \<exists>room \<in> set (fetchedRooms u fetch (modelRooms st) m).
             truthy (lookup room (Level (QC u)))
             \<and> toFullKey (Encoding u) (lookup room (Key (QC u))) = Inr roomKey
             \<and> toFullKey (Encoding u) (lookup room (Level (QC u))) = Inr levelKey"
    unfolding pk using main_roomLevelMap_mem [OF assms, of k lk] by simp
qed

theorem C7_witness:
  "main demoUtils demoFetch demoId demoFacility = Inr demoState
   \<and> fetchedRooms demoUtils demoFetch (modelRooms demoState) ''urn:adsk.dtm:A'' = [roomR]
   \<and> filter (\<lambda>req. urn req = ''urn:adsk.dtm:A'' \<and> keys (inputs req) \<noteq> None
                   \<and> families (inputs req) = [''n'']) (requests demoState)
       = [\<lparr>urn = ''urn:adsk.dtm:A'',
           inputs = \<lparr>families = [''n''], includeHistory = False, skipArrays = True,
                      keys = Some [Some ''L'']\<rparr>\<rparr>]"
proof -
  have A: "''urn:adsk.dtm:A'' \<in> modelId ` set (modelRooms demoState)"
    by (simp add: demoState_def)
  have fr: "fetchedRooms demoUtils demoFetch (modelRooms demoState) ''urn:adsk.dtm:A'' = [roomR]"
    by code_simp
  have st: "Standard (ColumnFamilies demoUtils) = ''n''"
    by (simp add: demoUtils_def)
  have lv: "lookup roomR (Level (QC demoUtils)) = Some ''L''"
    by (simp add: lookup_def roomR_def demoUtils_def)
  from C7_levels_are_fetched_from_the_room_model
         [OF demo_main, THEN conjunct2, THEN conjunct1, rule_format, OF A]
  have "filter (\<lambda>req. urn req = ''urn:adsk.dtm:A'' \<and> keys (inputs req) \<noteq> None
                   \<and> families (inputs req) = [''n'']) (requests demoState)
       = [\<lparr>urn = ''urn:adsk.dtm:A'',
           inputs = \<lparr>families = [''n''], includeHistory = False, skipArrays = True,
                      keys = Some [Some ''L'']\<rparr>\<rparr>]"
    unfolding fr st by (simp add: lv truthy_def newSet_def add_def)
  with demo_main fr show ?thesis by simp
qed

text \<open>
  C8. \<open>getAssetsByRoom\<close> fails with a \<open>TypeError\<close> for a room key that has no bucket in
  \<open>roomAssetsMap\<close>, and yields nothing for a bucket that is there and empty. After a run
  of \<open>main\<close> a key has a bucket exactly when STEP 5 met it, and the generator then yields
  the keys of the assets that referred to it, each with the element stored under it in
  \<open>assets\<close>, in the order in which STEP 3 went through the models, their assets and
  the references of each asset.
\<close>

theorem C8_assets_by_room:
  "(lookup (roomAssetsMap d) roomKey = None \<longrightarrow> getAssetsByRoom d roomKey = Inl TypeError)
   \<and> (lookup (roomAssetsMap d) roomKey = Some [] \<longrightarrow> getAssetsByRoom d roomKey = Inr [])
   \<and> (main u fetch fid fac = Inr st \<longrightarrow>
        getAssetsByRoom st roomKey
          = (let found = map snd (filter (\<lambda>p. fst p = roomKey) (discovered u fetch fid fac))
             in if found = [] then Inl TypeError
                else Inr (map (\<lambda>assetKey. (assetKey, lookup (assets st) assetKey)) found)))"
proof (intro conjI impI)
  assume "lookup (roomAssetsMap d) roomKey = None"
  then show "getAssetsByRoom d roomKey = Inl TypeError"
    by (simp add: getAssetsByRoom_def)
next
  assume "lookup (roomAssetsMap d) roomKey = Some []"
  then show "getAssetsByRoom d roomKey = Inr []"
    by (simp add: getAssetsByRoom_def)
next
  assume main: "main u fetch fid fac = Inr st"
  show "getAssetsByRoom st roomKey
          = (let found = map snd (filter (\<lambda>p. fst p = roomKey) (discovered u fetch fid fac))
             in if found = [] then Inl TypeError
                else Inr (map (\<lambda>assetKey. (assetKey, lookup (assets st) assetKey)) found))"
    by (simp add: getAssetsByRoom_def main_bucket [OF main] Let_def)
qed

theorem C8_witness:
  "getAssetsByRoom demoState ''FX'' = Inl TypeError
   \<and> getAssetsByRoom (initial\<lparr>roomAssetsMap := [(''FR'', [])]\<rparr>) ''FR'' = Inr []
   \<and> main demoUtils demoFetch demoId demoFacility = Inr demoState
   \<and> discovered demoUtils demoFetch demoId demoFacility
       = [(''FR'', ''Fp''), (''FS'', ''Fp''), (''FT'', ''Fq''), (''FR'', ''Fv'')]
   \<and> getAssetsByRoom demoState ''FR'' = Inr [(''Fp'', Some pump), (''Fv'', Some valve)]"
proof -
  have 1: "lookup (roomAssetsMap demoState) ''FX'' = None"
    by (simp add: demoState_def lookup_def)
  have 2: "lookup (roomAssetsMap (initial\<lparr>roomAssetsMap := [(''FR'', [])]\<rparr>)) ''FR'' = Some []"
    by (simp add: lookup_def)
  have a: "lookup (assets demoState) ''Fp'' = Some pump"
    and b: "lookup (assets demoState) ''Fv'' = Some valve"
    by (simp_all add: demoState_def lookup_def)
  from C8_assets_by_room [of demoState "''FX''", THEN conjunct1, rule_format, OF 1]
  have "getAssetsByRoom demoState ''FX'' = Inl TypeError" .
  moreover
  from C8_assets_by_room [of "initial\<lparr>roomAssetsMap := [(''FR'', [])]\<rparr>" "''FR''",
         THEN conjunct2, THEN conjunct1, rule_format, OF 2]
  have "getAssetsByRoom (initial\<lparr>roomAssetsMap := [(''FR'', [])]\<rparr>) ''FR'' = Inr []" .
  moreover
  from C8_assets_by_room [of demoState "''FR''" demoUtils demoFetch demoId demoFacility demoState,
         THEN conjunct2, THEN conjunct2, rule_format, OF demo_main]
  have "getAssetsByRoom demoState ''FR'' = Inr [(''Fp'', Some pump), (''Fv'', Some valve)]"
    by (simp add: demo_discovered a b)
  ultimately show ?thesis
    using demo_main demo_discovered by simp
qed

text \<open>
  C10, as stated, fails: the keys of the maps hold no model id. On the worked facility
  the asset \<open>p\<close> of model \<open>A\<close> refers to the room \<open>R\<close> of \<open>A\<close> and the asset \<open>v\<close> of model \<open>B\<close> to the
  room \<open>R\<close> of \<open>B\<close>; the two rooms share the bucket \<open>FR\<close>.
\<close>

theorem C10_counterexample:
  "main demoUtils demoFetch demoId demoFacility = Inr demoState
   \<and> findRoomRefs demoUtils ''urn:adsk.dtm:A'' pump
       = Inr [\<lparr>modelId = ''urn:adsk.dtm:A'', roomId = Some ''FR''\<rparr>,
              \<lparr>modelId = ''urn:adsk.dtm:A'', roomId = Some ''FS''\<rparr>]
   \<and> findRoomRefs demoUtils ''urn:adsk.dtm:B'' valve
       = Inr [\<lparr>modelId = ''urn:adsk.dtm:B'', roomId = Some ''FR''\<rparr>]
   \<and> \<lparr>modelId = ''urn:adsk.dtm:A'', roomId = Some ''FR''\<rparr>
       \<noteq> \<lparr>modelId = ''urn:adsk.dtm:B'', roomId = Some ''FR''\<rparr>
   \<and> map fst (roomAssetsMap demoState) = [''FR'', ''FS'', ''FT'']
   \<and> lookup (roomAssetsMap demoState) ''FR'' = Some [''Fp'', ''Fv'']"
proof -
  have "findRoomRefs demoUtils ''urn:adsk.dtm:A'' pump
       = Inr [\<lparr>modelId = ''urn:adsk.dtm:A'', roomId = Some ''FR''\<rparr>,
              \<lparr>modelId = ''urn:adsk.dtm:A'', roomId = Some ''FS''\<rparr>]"
    and "findRoomRefs demoUtils ''urn:adsk.dtm:B'' valve
       = Inr [\<lparr>modelId = ''urn:adsk.dtm:B'', roomId = Some ''FR''\<rparr>]"
    by code_simp+
  moreover have "map fst (roomAssetsMap demoState) = [''FR'', ''FS'', ''FT'']"
    and "lookup (roomAssetsMap demoState) ''FR'' = Some [''Fp'', ''Fv'']"
    by (simp_all add: demoState_def lookup_def)
  ultimately show ?thesis
    using demo_main by simp
qed

text \<open>
  C10, amended. The keys of \<open>roomAssetsMap\<close> are the room ids of the pending rooms, each
  once, in the order of their first reference: the full key of a same-model reference,
  the element key of a cross-model one, or \<open>"undefined"\<close>. The keys of \<open>roomLevelMap\<close> are
  full keys of fetched rooms. The model of a room is part of neither: two pending rooms
  with the same room id have one bucket, whatever their models.
\<close>

theorem C10_bucket_keys_are_room_ids:
  assumes "main u fetch fid fac = Inr st"
  shows "map fst (roomAssetsMap st) = newSet (map (\<lambda>r. propKey (roomId r)) (modelRooms st))
       \<and> (\<forall>k \<in> fst ` set (roomLevelMap st).
            \<exists>m \<in> modelId ` set (modelRooms st).
              \<exists>room \<in> set (fetchedRooms u fetch (modelRooms st) m).
                toFullKey (Encoding u) (lookup room (Key (QC u))) = Inr k)
       \<and> (\<forall>r \<in> set (modelRooms st). \<forall>r' \<in> set (modelRooms st).
            roomId r = roomId r' \<longrightarrow>
              lookup (roomAssetsMap st) (propKey (roomId r))
                = lookup (roomAssetsMap st) (propKey (roomId r'))
              \<and> lookup (roomAssetsMap st) (propKey (roomId r)) \<noteq> None)"
proof (intro conjI ballI impI)
  have "map fst (roomAssetsMap st) = foldl add [] (map fst (discovered u fetch fid fac))"
    unfolding main_roomAssetsMap [OF assms] by (simp add: map_fst_pushAll)
  then show "map fst (roomAssetsMap st) = newSet (map (\<lambda>r. propKey (roomId r)) (modelRooms st))"
    by (simp only: newSet_def main_discovered_keys [OF assms])
next
  fix k assume "k \<in> fst ` set (roomLevelMap st)"
  then obtain lk where "(k, lk) \<in> set (roomLevelMap st)" by auto
  from main_roomLevelMap_mem [OF assms this]
  show "\<exists>m \<in> modelId ` set (modelRooms st).
              \<exists>room \<in> set (fetchedRooms u fetch (modelRooms st) m).
                toFullKey (Encoding u) (lookup room (Key (QC u))) = Inr k"
    by blast
next
  fix r r' assume "r \<in> set (modelRooms st)" "r' \<in> set (modelRooms st)" "roomId r = roomId r'"
  then show "lookup (roomAssetsMap st) (propKey (roomId r))
                = lookup (roomAssetsMap st) (propKey (roomId r'))"
    by simp
next
  fix r r' assume "r \<in> set (modelRooms st)"
  from main_bucket_of_pending [OF assms this]
  show "lookup (roomAssetsMap st) (propKey (roomId r)) \<noteq> None"
    by auto
qed

theorem C10_witness:
  "main demoUtils demoFetch demoId demoFacility = Inr demoState
   \<and> map fst (roomAssetsMap demoState) = [''FR'', ''FS'', ''FT'']
   \<and> newSet (map (\<lambda>r. propKey (roomId r)) (modelRooms demoState)) = [''FR'', ''FS'', ''FT'']"
proof -
  have "newSet (map (\<lambda>r. propKey (roomId r)) (modelRooms demoState)) = [''FR'', ''FS'', ''FT'']"
    by (simp add: demoState_def newSet_def add_def propKey_def)
  with C10_bucket_keys_are_room_ids [OF demo_main, THEN conjunct1] demo_main
  show ?thesis by simp
qed

end
